theory Spec2Isabelle
  imports Main "HOL-Library.Word" "HOL-Library.Multiset"
begin

section \<open>JavaScript strings and arrays\<close>

text \<open>
  A JavaScript string is a sequence of UTF-16 code units; \<open>trim\<close>, \<open>\s\<close> and the
  regular expressions of \<open>App.tsx\<close> (none has the \<open>u\<close> flag) work on code units.
\<close>

type_synonym jschar = "16 word"
type_synonym jsstring = "jschar list"

definition js :: "string \<Rightarrow> jsstring" where
  "js s = map of_char s"

text \<open>ECMAScript WhiteSpace and LineTerminator: what \<open>trim\<close> strips and \<open>\s\<close> matches.\<close>

definition isWhiteSpace :: "jschar \<Rightarrow> bool" where
  "isWhiteSpace c \<longleftrightarrow>
     c = 0x09 \<or> c = 0x0A \<or> c = 0x0B \<or> c = 0x0C \<or> c = 0x0D \<or> c = 0x20 \<or> c = 0xA0
     \<or> c = 0x1680 \<or> (0x2000 \<le> c \<and> c \<le> 0x200A) \<or> c = 0x2028 \<or> c = 0x2029
     \<or> c = 0x202F \<or> c = 0x205F \<or> c = 0x3000 \<or> c = 0xFEFF"

definition trim :: "jsstring \<Rightarrow> jsstring" where
  "trim s = rev (dropWhile isWhiteSpace (rev (dropWhile isWhiteSpace s)))"

text \<open>\<open>s.replace(/\s+/g, '-')\<close>: every maximal run of white space becomes one hyphen.\<close>

function replace_ws :: "jsstring \<Rightarrow> jsstring" where
  "replace_ws [] = []"
| "replace_ws (c # cs) =
     (if isWhiteSpace c then 0x2D # replace_ws (dropWhile isWhiteSpace cs)
      else c # replace_ws cs)"
  by pat_completeness auto
termination
  by (relation "measure length") (auto simp: length_dropWhile_le less_Suc_eq_le)

text \<open>The decimal rendering of a non-negative integer, as in \<open>`${Date.now()}`\<close>.\<close>

function string_of_nat :: "nat \<Rightarrow> jsstring" where
  "string_of_nat n =
     (if n < 10 then [of_nat (48 + n)]
      else string_of_nat (n div 10) @ [of_nat (48 + n mod 10)])"
  by pat_completeness auto
termination
  by (relation "measure (\<lambda>n. n)") auto

declare string_of_nat.simps [simp del]

text \<open>
  A JavaScript array may have holes: reading beyond the end yields \<open>undefined\<close>
  (\<open>None\<close>) and writing beyond the end extends the array.
\<close>

definition js_get :: "'a option list \<Rightarrow> nat \<Rightarrow> 'a option" where
  "js_get xs i = (if i < length xs then xs ! i else None)"

definition js_set :: "'a option list \<Rightarrow> nat \<Rightarrow> 'a option \<Rightarrow> 'a option list" where
  "js_set xs i v =
     (if i < length xs then xs[i := v]
      else xs @ replicate (i - length xs) None @ [v])"

section \<open>Data model\<close>

text \<open>
  \<open>interface Platform\<close>. The optional field \<open>hidden\<close> is only ever tested for
  truthiness, so an absent field is \<open>False\<close>.
\<close>

record Platform =
  id' :: jsstring
  name :: jsstring
  url :: jsstring
  hidden :: bool

datatype direction = Up | Down

text \<open>
  What a storage location holds, seen through \<open>JSON.parse\<close>: text that does not
  parse, a value that is not an array, or an array of records. Writing
  \<open>JSON.stringify(platforms)\<close> stores \<open>JArray platforms\<close>.
\<close>

datatype content = Unparseable | NonArray | JArray "Platform list"

text \<open>The calls the component issues to the Tauri backend and to \<open>localStorage\<close>.\<close>

datatype call =
    HideAllWebviews
  | CreateOrShowWebview jsstring jsstring nat
  | DestroyWebview jsstring
  | ReloadWebview jsstring
  | LoadPlatforms
  | SavePlatforms content
  | GetItem
  | SetItem content

text \<open>
  The library functions of the JavaScript runtime that the component calls and that
  are not code of the repository: \<open>new URL(value).hostname\<close> (\<open>None\<close> when the
  constructor throws) and \<open>String.prototype.toLowerCase\<close>.
\<close>

record runtime =
  URL_hostname :: "jsstring \<Rightarrow> jsstring option"
  toLowerCase :: "jsstring \<Rightarrow> jsstring"

section \<open>Persistence gateway\<close>

definition usable :: "content \<Rightarrow> Platform list option" where
  "usable c = (case c of JArray ps \<Rightarrow> (if ps \<noteq> [] then Some ps else None) | _ \<Rightarrow> None)"

text \<open>
  \<open>loadPlatformsAsync\<close>. \<open>primary\<close> is the answer of \<open>invoke('load_platforms')\<close>
  (\<open>None\<close>: the call is rejected), \<open>legacy\<close> what \<open>localStorage.getItem\<close> holds
  (\<open>None\<close>: \<open>null\<close> or the empty string). The result is the returned list and
  the calls made, in order; every exception is swallowed by the two \<open>catch\<close> blocks.
\<close>

definition loadPlatformsAsync ::
  "content option \<Rightarrow> content option \<Rightarrow> Platform list \<times> call list" where
  "loadPlatformsAsync primary legacy =
     (case (case primary of None \<Rightarrow> None | Some c \<Rightarrow> usable c) of
        Some parsed \<Rightarrow> (parsed, [LoadPlatforms])
      | None \<Rightarrow>
          (case legacy of
             None \<Rightarrow> ([], [LoadPlatforms, GetItem])
           | Some saved \<Rightarrow>
               (case usable saved of
                  Some parsed \<Rightarrow> (parsed, [LoadPlatforms, GetItem, SavePlatforms saved])
                | None \<Rightarrow> ([], [LoadPlatforms, GetItem]))))"

definition savePlatformsToFile :: "Platform list \<Rightarrow> call list" where
  "savePlatformsToFile ps = [SavePlatforms (JArray ps), SetItem (JArray ps)]"

section \<open>URL helpers\<close>

definition isAlpha :: "jschar \<Rightarrow> bool" where
  "isAlpha c \<longleftrightarrow> (0x41 \<le> c \<and> c \<le> 0x5A) \<or> (0x61 \<le> c \<and> c \<le> 0x7A)"

definition isSchemeChar :: "jschar \<Rightarrow> bool" where
  "isSchemeChar c \<longleftrightarrow>
     isAlpha c \<or> (0x30 \<le> c \<and> c \<le> 0x39) \<or> c = 0x2B \<or> c = 0x2D \<or> c = 0x2E"

text \<open>
  \<open>/^[a-zA-Z][a-zA-Z\d+\-.]*:\/\//.test(s)\<close>. The colon is not in the character
  class, so the star has to consume the whole run of scheme characters.
\<close>

definition hasScheme :: "jsstring \<Rightarrow> bool" where
  "hasScheme s =
     (case s of [] \<Rightarrow> False
      | c # cs \<Rightarrow> isAlpha c \<and> take 3 (dropWhile isSchemeChar cs) = js ''://'')"

definition normalizeUrl :: "jsstring \<Rightarrow> jsstring" where
  "normalizeUrl v =
     (let trimmed = trim v in
      if trimmed = [] then []
      else if hasScheme trimmed then trimmed
      else js ''https://'' @ trimmed)"

text \<open>The fallback label, three code units (U+65B0 U+6807 U+7B7E).\<close>

definition NEW_TAB_LABEL :: jsstring where
  "NEW_TAB_LABEL = [0x65B0, 0x6807, 0x7B7E]"

text \<open>\<open>hostname.replace(/^www\./, '')\<close>\<close>

definition strip_www :: "jsstring \<Rightarrow> jsstring" where
  "strip_www h = (if take 4 h = js ''www.'' then drop 4 h else h)"

definition deriveNameFromUrl :: "runtime \<Rightarrow> jsstring \<Rightarrow> jsstring" where
  "deriveNameFromUrl rt v =
     (case URL_hostname rt v of
        None \<Rightarrow> NEW_TAB_LABEL
      | Some h \<Rightarrow> (if strip_www h = [] then NEW_TAB_LABEL else strip_www h))"

section \<open>Component state\<close>

text \<open>
  The \<open>useState\<close> cells of \<open>App\<close> that the tab logic reads or writes
  (\<open>useSystemProxy\<close> and \<open>selectedPreset\<close> only feed the rendering).
\<close>

record state =
  platforms :: "Platform list"
  tempTabs :: "Platform list"
  activeTab :: jsstring
  showSettings :: bool
  showAddForm :: bool
  initialized :: bool
  showQuickAdd :: bool
  newName :: jsstring
  newUrl :: jsstring
  quickName :: jsstring
  quickUrl :: jsstring

definition init :: state where
  "init = \<lparr> platforms = [], tempTabs = [], activeTab = [], showSettings = False,
            showAddForm = False, initialized = False, showQuickAdd = False,
            newName = [], newUrl = [], quickName = [], quickUrl = [] \<rparr>"

text \<open>
  What one event handler leaves behind: the state after its batched \<open>setState\<close>
  calls, the calls it issued, and whether \<open>setPlatforms\<close> / \<open>setTempTabs\<close> ran
  (each of them installs a fresh array, so the effects depending on the array re-run
  even when its contents are the same).
\<close>

record outcome =
  result :: state
  issued :: "call list"
  platformsSet :: bool
  tempTabsSet :: bool

definition unchanged :: "state \<Rightarrow> outcome" where
  "unchanged s = \<lparr> result = s, issued = [], platformsSet = False, tempTabsSet = False \<rparr>"

text \<open>\<open>xs.length ? xs[0].id : ''\<close>\<close>

definition firstId :: "Platform list \<Rightarrow> jsstring" where
  "firstId xs = (case xs of [] \<Rightarrow> [] | p # _ \<Rightarrow> id' p)"

text \<open>\<open>!p.url || !p.url.trim()\<close>\<close>

definition blank :: "jsstring \<Rightarrow> bool" where
  "blank u \<longleftrightarrow> trim u = []"

definition visible :: "Platform list \<Rightarrow> Platform list" where
  "visible ps = filter (\<lambda>p. \<not> hidden p) ps"

definition resetAddForm :: "state \<Rightarrow> state" where
  "resetAddForm s = s\<lparr> newName := [], newUrl := [] \<rparr>"

definition resetQuickAdd :: "state \<Rightarrow> state" where
  "resetQuickAdd s = s\<lparr> quickName := [], quickUrl := [] \<rparr>"

section \<open>Event handlers\<close>

text \<open>
  The \<open>then\<close> callback of the startup effect, with the load it waits for. The
  \<open>load_platforms\<close> call went out when the component was mounted, so the calls of
  this event are the remaining ones of the load.
\<close>

definition loadResolved :: "content option \<Rightarrow> content option \<Rightarrow> state \<Rightarrow> outcome" where
  "loadResolved primary legacy s =
     (let (loaded, io) = loadPlatformsAsync primary legacy in
      \<lparr> result = s\<lparr> platforms := loaded,
                   activeTab := (if loaded \<noteq> [] then id' (hd loaded) else activeTab s),
                   initialized := True \<rparr>,
        issued = tl io, platformsSet = True, tempTabsSet = False \<rparr>)"

definition toggleSettings :: "state \<Rightarrow> outcome" where
  "toggleSettings s =
     (if \<not> showSettings s then
        \<lparr> result = s\<lparr> showSettings := True, showQuickAdd := False \<rparr>,
          issued = [HideAllWebviews], platformsSet = False, tempTabsSet = False \<rparr>
      else
        \<lparr> result = resetAddForm (s\<lparr> showSettings := False, showAddForm := False \<rparr>),
          issued =
            (case find (\<lambda>p. id' p = activeTab s \<and> \<not> hidden p) (platforms s) of
               Some platform \<Rightarrow> [CreateOrShowWebview (id' platform) (url platform) 78]
             | None \<Rightarrow> []),
          platformsSet = False, tempTabsSet = False \<rparr>)"

definition handleAddPlatform :: "runtime \<Rightarrow> nat \<Rightarrow> state \<Rightarrow> outcome" where
  "handleAddPlatform rt now s =
     (if trim (newName s) = [] \<or> trim (newUrl s) = [] then unchanged s
      else
        let i = replace_ws (toLowerCase rt (newName s)) @ js ''-'' @ string_of_nat now;
            finalUrl = normalizeUrl (newUrl s);
            newPlatform = \<lparr> id' = i, name = trim (newName s), url = finalUrl, hidden = False \<rparr>
        in \<lparr> result = resetAddForm (s\<lparr> platforms := platforms s @ [newPlatform],
                                      showAddForm := False, activeTab := i \<rparr>),
             issued = [], platformsSet = True, tempTabsSet = False \<rparr>)"

definition handleQuickAdd :: "runtime \<Rightarrow> nat \<Rightarrow> state \<Rightarrow> outcome" where
  "handleQuickAdd rt now s =
     (if trim (quickUrl s) = [] then unchanged s
      else
        let finalUrl = normalizeUrl (quickUrl s);
            displayName = (if trim (quickName s) \<noteq> [] then trim (quickName s)
                           else deriveNameFromUrl rt finalUrl);
            lowered = replace_ws (toLowerCase rt
                        (if trim (quickName s) \<noteq> [] then trim (quickName s) else displayName));
            baseId = (if lowered \<noteq> [] then lowered else js ''tmp'');
            i = js ''tmp-'' @ baseId @ js ''-'' @ string_of_nat now;
            newPlatform = \<lparr> id' = i, name = displayName, url = finalUrl, hidden = False \<rparr>
        in \<lparr> result = resetQuickAdd (s\<lparr> tempTabs := tempTabs s @ [newPlatform],
                                       showQuickAdd := False, activeTab := i \<rparr>),
             issued = [], platformsSet = False, tempTabsSet = True \<rparr>)"

definition handleRemovePlatform :: "jsstring \<Rightarrow> state \<Rightarrow> outcome" where
  "handleRemovePlatform i s =
     (let updated = filter (\<lambda>p. id' p \<noteq> i) (platforms s) in
      \<lparr> result = s\<lparr> platforms := updated,
                   activeTab := (if activeTab s = i
                                 then (if updated \<noteq> [] then id' (hd updated) else [])
                                 else activeTab s) \<rparr>,
        issued = [DestroyWebview i], platformsSet = True, tempTabsSet = False \<rparr>)"

text \<open>
  The updater of \<open>handleMovePlatform\<close>, on the copy \<open>[...prev]\<close>. The destructuring
  assignment reads both elements first and then writes them in order. In \<open>nat\<close>,
  \<open>length updated - 1\<close> is 0 for the empty array where JavaScript has -1; no index is
  below either.
\<close>

definition handleMovePlatform :: "nat \<Rightarrow> direction \<Rightarrow> Platform list \<Rightarrow> Platform option list" where
  "handleMovePlatform index dir prev =
     (let updated = map Some prev in
      if dir = Up \<and> index > 0 then
        js_set (js_set updated (index - 1) (js_get updated index)) index
               (js_get updated (index - 1))
      else if dir = Down \<and> index < length updated - 1 then
        js_set (js_set updated index (js_get updated (index + 1))) (index + 1)
               (js_get updated index)
      else updated)"

text \<open>
  The panel renders one row of buttons per element of \<open>platforms\<close>, so the handler is
  called with an index of the array, where the result has no hole (lemma
  \<open>handleMovePlatform_dense\<close>); for any other index the model leaves the list alone.
\<close>

definition movePlatform :: "nat \<Rightarrow> direction \<Rightarrow> state \<Rightarrow> outcome" where
  "movePlatform index dir s =
     (if index < length (platforms s) then
        \<lparr> result = s\<lparr> platforms :=
                     (case those (handleMovePlatform index dir (platforms s)) of
                        Some ps \<Rightarrow> ps | None \<Rightarrow> platforms s) \<rparr>,
          issued = [], platformsSet = True, tempTabsSet = False \<rparr>
      else unchanged s)"

definition handleReloadPlatform :: "jsstring \<Rightarrow> state \<Rightarrow> outcome" where
  "handleReloadPlatform i s = (unchanged s)\<lparr> issued := [ReloadWebview i] \<rparr>"

definition handleCloseTab :: "jsstring \<Rightarrow> state \<Rightarrow> outcome" where
  "handleCloseTab i s =
     (if list_ex (\<lambda>p. id' p = i) (tempTabs s) then
        let tempAfter = filter (\<lambda>p. id' p \<noteq> i) (tempTabs s) in
        \<lparr> result = s\<lparr> activeTab := (if activeTab s = i
                                   then firstId (platforms s @ tempAfter) else activeTab s),
                     tempTabs := tempAfter \<rparr>,
          issued = [DestroyWebview i], platformsSet = False, tempTabsSet = True \<rparr>
      else
        let updated = map (\<lambda>p. if id' p = i then p\<lparr> hidden := True \<rparr> else p) (platforms s) in
        \<lparr> result = s\<lparr> platforms := updated,
                     activeTab := (if activeTab s = i
                                   then firstId (visible updated @ tempTabs s)
                                   else activeTab s) \<rparr>,
          issued = [DestroyWebview i], platformsSet = True, tempTabsSet = False \<rparr>)"

text \<open>A click on a tab of the strip; the strip shows the visible and the temporary tabs.\<close>

definition selectTab :: "jsstring \<Rightarrow> state \<Rightarrow> outcome" where
  "selectTab i s =
     (if list_ex (\<lambda>p. id' p = i) (visible (platforms s) @ tempTabs s)
      then (unchanged s)\<lparr> result := s\<lparr> activeTab := i \<rparr> \<rparr>
      else unchanged s)"

text \<open>The \<open>+\<close> button of the tab strip.\<close>

definition openBlank :: "nat \<Rightarrow> state \<Rightarrow> outcome" where
  "openBlank now s =
     (if showSettings s then unchanged s
      else if \<not> showQuickAdd s then
        let i = js ''tmp-new-'' @ string_of_nat now in
        \<lparr> result = s\<lparr> tempTabs := tempTabs s @ [\<lparr> id' = i, name = NEW_TAB_LABEL, url = [], hidden = False \<rparr>],
                     activeTab := i, showQuickAdd := True \<rparr>,
          issued = [], platformsSet = False, tempTabsSet = True \<rparr>
      else (unchanged s)\<lparr> result := s\<lparr> showQuickAdd := True \<rparr> \<rparr>)"

text \<open>The Enter key and the confirm button of the quick-add popover (same code).\<close>

definition quickAddConfirm :: "runtime \<Rightarrow> nat \<Rightarrow> state \<Rightarrow> outcome" where
  "quickAddConfirm rt now s =
     (case find (\<lambda>p. id' p = activeTab s) (tempTabs s) of
        Some currentTemp \<Rightarrow>
          (if blank (url currentTemp) then
             let finalUrl = normalizeUrl (quickUrl s) in
             if finalUrl = [] then unchanged s
             else
               let displayName = (if trim (quickName s) \<noteq> [] then trim (quickName s)
                                  else deriveNameFromUrl rt finalUrl) in
               \<lparr> result = resetQuickAdd (s\<lparr> tempTabs :=
                            map (\<lambda>p. if id' p = id' currentTemp
                                      then p\<lparr> name := displayName, url := finalUrl \<rparr> else p)
                                (tempTabs s),
                            showQuickAdd := False \<rparr>),
                 issued = [], platformsSet = False, tempTabsSet = True \<rparr>
           else handleQuickAdd rt now s)
      | None \<Rightarrow> handleQuickAdd rt now s)"

text \<open>The cancel button and the backdrop of the quick-add popover (same code).\<close>

definition quickAddCancel :: "state \<Rightarrow> outcome" where
  "quickAddCancel s =
     (let s1 = resetQuickAdd (s\<lparr> showQuickAdd := False \<rparr>) in
      case find (\<lambda>p. id' p = activeTab s) (tempTabs s) of
        Some currentTemp \<Rightarrow>
          (if blank (url currentTemp) then
             let updated = filter (\<lambda>p. id' p \<noteq> activeTab s) (tempTabs s) in
             \<lparr> result = s1\<lparr> tempTabs := updated, activeTab := firstId (platforms s @ updated) \<rparr>,
               issued = [], platformsSet = False, tempTabsSet = True \<rparr>
           else (unchanged s)\<lparr> result := s1 \<rparr>)
      | None \<Rightarrow> (unchanged s)\<lparr> result := s1 \<rparr>)"

text \<open>A click on row \<open>index\<close> of the settings panel: a hidden platform is shown again.\<close>

definition panelItemClick :: "nat \<Rightarrow> state \<Rightarrow> outcome" where
  "panelItemClick index s =
     (if index < length (platforms s) \<and> hidden (platforms s ! index) then
        let p = platforms s ! index in
        \<lparr> result = s\<lparr> platforms := map (\<lambda>item. if id' item = id' p
                                              then item\<lparr> hidden := False \<rparr> else item)
                                     (platforms s),
                     activeTab := id' p \<rparr>,
          issued = [], platformsSet = True, tempTabsSet = False \<rparr>
      else unchanged s)"

text \<open>The listener of the \<open>new_tab_request\<close> event; a \<open>null\<close> payload counts as \<open>''\<close>.\<close>

definition newTabRequest :: "runtime \<Rightarrow> jsstring \<Rightarrow> nat \<Rightarrow> state \<Rightarrow> outcome" where
  "newTabRequest rt u now s =
     (if u = [] then unchanged s
      else
        let i = js ''tmp-'' @ string_of_nat now;
            n = deriveNameFromUrl rt u
        in \<lparr> result = s\<lparr> tempTabs := tempTabs s @ [\<lparr> id' = i, name = n, url = u, hidden = False \<rparr>],
                        activeTab := i \<rparr>,
             issued = [], platformsSet = False, tempTabsSet = True \<rparr>)"

section \<open>Effects\<close>

text \<open>
  The effect "make sure we have an active tab": the argument of its \<open>setActiveTab\<close>
  call, if it makes one.
\<close>

definition reconcileActive :: "state \<Rightarrow> jsstring option" where
  "reconcileActive s =
     (let all = visible (platforms s) @ tempTabs s in
      if all \<noteq> [] \<and>
         (activeTab s = [] \<or>
          (case find (\<lambda>p. id' p = activeTab s) (platforms s) of
             Some p \<Rightarrow> hidden p | None \<Rightarrow> False))
      then Some (id' (hd all)) else None)"

definition saveEffect :: "state \<Rightarrow> call list" where
  "saveEffect s = (if initialized s then savePlatformsToFile (platforms s) else [])"

definition webviewEffect :: "state \<Rightarrow> call list" where
  "webviewEffect s =
     (if showSettings s \<or> activeTab s = [] then []
      else
        case (case find (\<lambda>p. id' p = activeTab s) (tempTabs s) of
                Some p \<Rightarrow> Some p
              | None \<Rightarrow> find (\<lambda>p. id' p = activeTab s) (platforms s)) of
          None \<Rightarrow> []
        | Some platform \<Rightarrow>
            (if blank (url platform) then [HideAllWebviews]
             else [CreateOrShowWebview (id' platform) (url platform) 70]))"

text \<open>
  One render after a handler, whose \<open>setState\<close> calls React batches into a single
  update (also inside the promise callback of the load, as React 18 does).
  The effects run in the order of their declaration, each
  only if one of its dependencies changed against the previous render \<open>s0\<close>, and all
  see the same state. When the first effect sets a different active tab, the component
  renders once more and the effects depending on \<open>activeTab\<close> run again; the first
  effect then asks for the value it already has (lemma \<open>reconcileActive_settled\<close>),
  so there is no third render.
\<close>

definition commit :: "state \<Rightarrow> outcome \<Rightarrow> state \<times> call list" where
  "commit s0 out =
     (let s1 = result out;
          arrays = platformsSet out \<or> tempTabsSet out;
          active = (activeTab s1 \<noteq> activeTab s0);
          first = issued out
            @ (if platformsSet out \<or> initialized s1 \<noteq> initialized s0 then saveEffect s1 else [])
            @ (if active \<or> arrays \<or> showSettings s1 \<noteq> showSettings s0
               then webviewEffect s1 else [])
      in case (if arrays \<or> active then reconcileActive s1 else None) of
           None \<Rightarrow> (s1, first)
         | Some a \<Rightarrow>
             (if a = activeTab s1 then (s1, first)
              else let s2 = s1\<lparr> activeTab := a \<rparr> in (s2, first @ webviewEffect s2)))"

section \<open>Events\<close>

datatype event =
    LoadResolved "content option" "content option"
  | SelectTab jsstring
  | ToggleSettings
  | SetShowAddForm bool
  | TypeNewName jsstring
  | TypeNewUrl jsstring
  | TypeQuickName jsstring
  | TypeQuickUrl jsstring
  | AddPlatform nat
  | RemovePlatform jsstring
  | MovePlatform nat direction
  | ReloadPlatform jsstring
  | CloseTab jsstring
  | PanelItemClick nat
  | OpenBlank nat
  | QuickAddConfirm nat
  | QuickAddCancel
  | NewTabRequest jsstring nat

text \<open>
  The numbers are the values of \<open>Date.now()\<close> at the event. The quick-add popover,
  with its input and its confirm button, is rendered only while \<open>showQuickAdd\<close>
  holds; the add form is opened by one button and closed by its cancel button.
\<close>

fun handle :: "runtime \<Rightarrow> event \<Rightarrow> state \<Rightarrow> outcome" where
  "handle rt (LoadResolved primary legacy) s = loadResolved primary legacy s"
| "handle rt (SelectTab i) s = selectTab i s"
| "handle rt ToggleSettings s = toggleSettings s"
| "handle rt (SetShowAddForm b) s =
     (unchanged s)\<lparr> result := (if b then s\<lparr> showAddForm := True \<rparr>
                                else resetAddForm (s\<lparr> showAddForm := False \<rparr>)) \<rparr>"
| "handle rt (TypeNewName v) s = (unchanged s)\<lparr> result := s\<lparr> newName := v \<rparr> \<rparr>"
| "handle rt (TypeNewUrl v) s = (unchanged s)\<lparr> result := s\<lparr> newUrl := v \<rparr> \<rparr>"
| "handle rt (TypeQuickName v) s = (unchanged s)\<lparr> result := s\<lparr> quickName := v \<rparr> \<rparr>"
| "handle rt (TypeQuickUrl v) s = (unchanged s)\<lparr> result := s\<lparr> quickUrl := v \<rparr> \<rparr>"
| "handle rt (AddPlatform now) s = handleAddPlatform rt now s"
| "handle rt (RemovePlatform i) s = handleRemovePlatform i s"
| "handle rt (MovePlatform index dir) s = movePlatform index dir s"
| "handle rt (ReloadPlatform i) s = handleReloadPlatform i s"
| "handle rt (CloseTab i) s = handleCloseTab i s"
| "handle rt (PanelItemClick index) s = panelItemClick index s"
| "handle rt (OpenBlank now) s = openBlank now s"
| "handle rt (QuickAddConfirm now) s =
     (if showQuickAdd s then quickAddConfirm rt now s else unchanged s)"
| "handle rt QuickAddCancel s = quickAddCancel s"
| "handle rt (NewTabRequest u now) s = newTabRequest rt u now s"

definition step :: "runtime \<Rightarrow> event \<Rightarrow> state \<Rightarrow> state \<times> call list" where
  "step rt e s = commit s (handle rt e s)"

text \<open>A sequence of events from a state: the final state and all calls, in order.\<close>

fun run :: "runtime \<Rightarrow> state \<Rightarrow> event list \<Rightarrow> state \<times> call list" where
  "run rt s [] = (s, [])"
| "run rt s (e # es) =
     (let (s1, cs1) = step rt e s; (s2, cs2) = run rt s1 es in (s2, cs1 @ cs2))"

text \<open>The sequence of tabs the strip shows.\<close>

definition allTabs :: "state \<Rightarrow> Platform list" where
  "allTabs s = visible (platforms s) @ tempTabs s"

definition isSave :: "call \<Rightarrow> bool" where
  "isSave c = (case c of SavePlatforms _ \<Rightarrow> True | _ \<Rightarrow> False)"

definition isWrite :: "call \<Rightarrow> bool" where
  "isWrite c = (case c of SavePlatforms _ \<Rightarrow> True | SetItem _ \<Rightarrow> True | _ \<Rightarrow> False)"

definition isLoadResolved :: "event \<Rightarrow> bool" where
  "isLoadResolved e = (case e of LoadResolved _ _ \<Rightarrow> True | _ \<Rightarrow> False)"

definition isShow :: "jsstring \<Rightarrow> call \<Rightarrow> bool" where
  "isShow i c = (case c of CreateOrShowWebview j _ _ \<Rightarrow> j = i | _ \<Rightarrow> False)"

definition isAnyShow :: "call \<Rightarrow> bool" where
  "isAnyShow c = (case c of CreateOrShowWebview _ _ _ \<Rightarrow> True | _ \<Rightarrow> False)"

section \<open>A runtime for the examples\<close>

definition asciiLower :: "jschar \<Rightarrow> jschar" where
  "asciiLower c = (if 0x41 \<le> c \<and> c \<le> 0x5A then c + 0x20 else c)"

definition isSpecialScheme :: "jsstring \<Rightarrow> bool" where
  "isSpecialScheme sch \<longleftrightarrow>
     sch = js ''http'' \<or> sch = js ''https'' \<or> sch = js ''ws'' \<or> sch = js ''wss'' \<or> sch = js ''ftp''"

definition isAuthorityEnd :: "jschar \<Rightarrow> bool" where
  "isAuthorityEnd c \<longleftrightarrow> c = 0x2F \<or> c = 0x5C \<or> c = 0x3F \<or> c = 0x23"

text \<open>
  A fragment of the URL parser of the platform, enough to run the examples below.
  There is no base URL, so an input without a scheme is rejected. For \<open>http\<close>,
  \<open>https\<close>, \<open>ws\<close>, \<open>wss\<close> and \<open>ftp\<close> the host is what follows the slashes up to
  the next \<open>/\<close>, \<open>\\<close>, \<open>?\<close> or \<open>#\<close>, without credentials and port, in lower
  case, and an empty host is rejected. For any other scheme the host is read in the
  same way behind \<open>//\<close> and may be empty, and without \<open>//\<close> the path is opaque and
  the host name empty (as for \<open>about:blank\<close>). Host names that need percent-decoding,
  IDNA or IP-address normalisation are outside the fragment.
\<close>

definition hostOfAuthority :: "jsstring \<Rightarrow> jsstring" where
  "hostOfAuthority authority =
     takeWhile (\<lambda>x. x \<noteq> 0x3A) (rev (takeWhile (\<lambda>x. x \<noteq> 0x40) (rev authority)))"

definition example_hostname :: "jsstring \<Rightarrow> jsstring option" where
  "example_hostname v =
     (case v of [] \<Rightarrow> None
      | c # cs \<Rightarrow>
          if \<not> isAlpha c then None
          else
            let scheme = map asciiLower (c # takeWhile isSchemeChar cs);
                rest = dropWhile isSchemeChar cs
            in if take 1 rest \<noteq> js '':'' then None
               else if isSpecialScheme scheme then
                 let host = hostOfAuthority (takeWhile (\<lambda>x. \<not> isAuthorityEnd x)
                              (dropWhile (\<lambda>x. x = 0x2F \<or> x = 0x5C) (drop 1 rest)))
                 in if host = [] then None else Some (map asciiLower host)
               else if take 2 (drop 1 rest) = js ''//'' then
                 Some (hostOfAuthority (takeWhile (\<lambda>x. x \<noteq> 0x2F \<and> x \<noteq> 0x3F \<and> x \<noteq> 0x23)
                         (drop 3 rest)))
               else Some [])"

definition example_runtime :: runtime where
  "example_runtime = \<lparr> URL_hostname = example_hostname, toLowerCase = map asciiLower \<rparr>"

section \<open>Example data\<close>

definition tabA :: Platform where
  "tabA = \<lparr> id' = js ''a'', name = js ''A'', url = js ''https://a.example'', hidden = False \<rparr>"

definition tabB :: Platform where
  "tabB = \<lparr> id' = js ''b'', name = js ''B'', url = js ''https://b.example'', hidden = False \<rparr>"

definition tabC :: Platform where
  "tabC = \<lparr> id' = js ''c'', name = js ''C'', url = js ''https://c.example'', hidden = True \<rparr>"

definition stateAB :: state where
  "stateAB = init\<lparr> platforms := [tabA, tabB], activeTab := js ''a'', initialized := True \<rparr>"

definition tabT :: Platform where
  "tabT = \<lparr> id' = js ''tmp-17'', name = js ''example.com'', url = js ''https://example.com/x'',
            hidden = False \<rparr>"

definition overlayAB :: state where
  "overlayAB = stateAB\<lparr> showSettings := True \<rparr>"

definition tabBlank :: Platform where
  "tabBlank = \<lparr> id' = js ''d'', name = js ''D'', url = [], hidden = False \<rparr>"

definition overlayBlank :: state where
  "overlayBlank = init\<lparr> platforms := [tabBlank], activeTab := js ''d'', initialized := True,
                        showSettings := True \<rparr>"

definition overlayT :: state where
  "overlayT = init\<lparr> tempTabs := [tabT], activeTab := js ''tmp-17'', showSettings := True \<rparr>"

definition overlayEmpty :: state where
  "overlayEmpty = init\<lparr> showSettings := True \<rparr>"

definition hiddenAt :: "jsstring \<Rightarrow> Platform list \<Rightarrow> bool" where
  "hiddenAt a ps = (case find (\<lambda>p. id' p = a) ps of Some p \<Rightarrow> hidden p | None \<Rightarrow> False)"

definition stateAC :: state where
  "stateAC = init\<lparr> platforms := [tabA, tabC], activeTab := js ''a'', initialized := True \<rparr>"

text \<open>The active id names a tab of the strip, unless the strip is empty.\<close>

definition activeInStrip :: "state \<Rightarrow> bool" where
  "activeInStrip s \<longleftrightarrow> allTabs s = [] \<or> activeTab s \<in> id' ` set (allTabs s)"

section \<open>URL normalisation\<close>

lemma dropWhile_id_hd: "xs \<noteq> [] \<Longrightarrow> \<not> P (hd xs) \<Longrightarrow> dropWhile P xs = xs"
  by (cases xs) auto

lemma trim_fixed:
  assumes "xs \<noteq> []" "\<not> isWhiteSpace (hd xs)" "\<not> isWhiteSpace (last xs)"
  shows "trim xs = xs"
proof -
  have "dropWhile isWhiteSpace xs = xs" using assms by (simp add: dropWhile_id_hd)
  moreover have "dropWhile isWhiteSpace (rev xs) = rev xs"
    using assms by (simp add: dropWhile_id_hd hd_rev)
  ultimately show ?thesis by (simp add: trim_def)
qed

lemma trim_ends:
  assumes "trim s \<noteq> []"
  shows "\<not> isWhiteSpace (hd (trim s))" and "\<not> isWhiteSpace (last (trim s))"
proof -
  let ?d = "dropWhile isWhiteSpace s"
  let ?r = "dropWhile isWhiteSpace (rev ?d)"
  have r: "?r \<noteq> []" using assms by (simp add: trim_def)
  then have "\<not> isWhiteSpace (hd ?r)" by (rule hd_dropWhile)
  then show "\<not> isWhiteSpace (last (trim s))" using r by (simp add: trim_def last_rev)
  have d: "?d \<noteq> []"
    using r by (metis dropWhile.simps(1) rev.simps(1))
  then have hd: "\<not> isWhiteSpace (hd ?d)" by (rule hd_dropWhile)
  obtain ys where ys: "rev ?d = ys @ ?r" 
    by (metis takeWhile_dropWhile_id)
  then have "?d = rev ?r @ rev ys" by (metis rev_append rev_rev_ident)
  then have "hd ?d = hd (rev ?r)" using r by (metis hd_append2 rev_is_Nil_conv)
  then show "\<not> isWhiteSpace (hd (trim s))" using hd by (simp add: trim_def)
qed

lemma trim_idem: "trim (trim s) = trim s"
proof (cases "trim s = []")
  case True
  have "trim [] = []" by (simp add: trim_def)
  with True show ?thesis by simp
next
  case False then show ?thesis by (intro trim_fixed trim_ends)
qed

lemma hasScheme_https: "hasScheme (js ''https://'' @ t)"
  by (simp add: hasScheme_def js_def isAlpha_def isSchemeChar_def)

lemma trim_https:
  assumes "trim s \<noteq> []"
  shows "trim (js ''https://'' @ trim s) = js ''https://'' @ trim s"
proof (rule trim_fixed)
  show "js ''https://'' @ trim s \<noteq> []" by (simp add: js_def)
  show "\<not> isWhiteSpace (hd (js ''https://'' @ trim s))" by (simp add: js_def isWhiteSpace_def)
  show "\<not> isWhiteSpace (last (js ''https://'' @ trim s))"
    using assms trim_ends(2) [OF assms] by simp
qed

text \<open>
  Claim C10. \<open>normalizeUrl\<close> is idempotent; its result is empty exactly when the
  input trims to the empty string, is the trimmed input when that begins with a scheme
  followed by \<open>://\<close>, and is the trimmed input behind \<open>https://\<close> otherwise.
\<close>

theorem normalizeUrl_idempotent_scheme_preserving:
  "normalizeUrl (normalizeUrl s) = normalizeUrl s
   \<and> (normalizeUrl s = [] \<longleftrightarrow> trim s = [])
   \<and> (hasScheme (trim s) \<longrightarrow> normalizeUrl s = trim s)
   \<and> (trim s \<noteq> [] \<and> \<not> hasScheme (trim s) \<longrightarrow> normalizeUrl s = js ''https://'' @ trim s)"
proof -
  have e: "trim [] = []" by (simp add: trim_def)
  have n: "hasScheme (trim s) \<Longrightarrow> trim s \<noteq> []" by (auto simp: hasScheme_def)
  have idem: "normalizeUrl (normalizeUrl s) = normalizeUrl s"
  proof (cases "trim s = []")
    case True then show ?thesis by (simp add: normalizeUrl_def e)
  next
    case False
    show ?thesis
    proof (cases "hasScheme (trim s)")
      case True
      then show ?thesis using False by (simp add: normalizeUrl_def Let_def trim_idem)
    next
      case ns: False
      then show ?thesis using False
        by (simp add: normalizeUrl_def Let_def trim_https hasScheme_https)
    qed
  qed
  have empty: "normalizeUrl s = [] \<longleftrightarrow> trim s = []"
    by (simp add: normalizeUrl_def Let_def js_def)
  show ?thesis using idem empty n by (simp add: normalizeUrl_def Let_def)
qed

theorem normalizeUrl_witness:
  "hasScheme (trim (js '' ftp://files.example ''))
   \<and> normalizeUrl (js '' ftp://files.example '') = js ''ftp://files.example''
   \<and> trim (js '' chat.deepseek.com '') \<noteq> []
   \<and> \<not> hasScheme (trim (js '' chat.deepseek.com ''))
   \<and> normalizeUrl (js '' chat.deepseek.com '') = js ''https://chat.deepseek.com''
   \<and> normalizeUrl (normalizeUrl (js '' chat.deepseek.com '')) = js ''https://chat.deepseek.com''"
proof -
  have t1: "trim (js '' ftp://files.example '') = js ''ftp://files.example''"
    by (simp add: trim_def js_def isWhiteSpace_def)
  have t2: "trim (js '' chat.deepseek.com '') = js ''chat.deepseek.com''"
    by (simp add: trim_def js_def isWhiteSpace_def)
  have h1: "hasScheme (js ''ftp://files.example'')"
    by (simp add: hasScheme_def js_def isAlpha_def isSchemeChar_def)
  have h2: "\<not> hasScheme (js ''chat.deepseek.com'')"
    by (simp add: hasScheme_def js_def isAlpha_def isSchemeChar_def)
  show ?thesis
    using normalizeUrl_idempotent_scheme_preserving [of "js '' ftp://files.example ''"]
          normalizeUrl_idempotent_scheme_preserving [of "js '' chat.deepseek.com ''"]
          h1 h2
    by (simp add: t1 t2) (simp add: js_def)
qed


section \<open>Reordering\<close>

lemma those_map_Some: "those (map Some xs) = Some xs"
  by (induction xs) auto

lemma js_get_map_Some: "i < length xs \<Longrightarrow> js_get (map Some xs) i = Some (xs ! i)"
  by (simp add: js_get_def)

lemma js_set_map_Some:
  "i < length xs \<Longrightarrow> js_set (map Some xs) i (Some v) = map Some (xs[i := v])"
  by (simp add: js_set_def map_update)

lemma handleMovePlatform_up:
  assumes "0 < index" "index < length prev"
  shows "handleMovePlatform index Up prev =
         map Some (prev[index - 1 := prev ! index, index := prev ! (index - 1)])"
  using assms
  by (simp add: handleMovePlatform_def Let_def js_get_map_Some js_set_map_Some)

lemma handleMovePlatform_down:
  assumes "index < length prev - 1"
  shows "handleMovePlatform index Down prev =
         map Some (prev[index := prev ! (index + 1), index + 1 := prev ! index])"
proof -
  have "index < length prev" "index + 1 < length prev" using assms by simp_all
  then show ?thesis using assms
    by (simp add: handleMovePlatform_def Let_def js_get_map_Some js_set_map_Some)
qed

lemma handleMovePlatform_boundary:
  "handleMovePlatform 0 Up prev = map Some prev"
  "handleMovePlatform (length prev - 1) Down prev = map Some prev"
  by (simp_all add: handleMovePlatform_def)

lemma handleMovePlatform_dense:
  assumes "index < length prev"
  shows "\<exists>ps. those (handleMovePlatform index dir prev) = Some ps
              \<and> mset ps = mset prev \<and> length ps = length prev"
proof (cases dir)
  case Up
  show ?thesis
  proof (cases "0 < index")
    case True
    have "mset (prev[index - 1 := prev ! index, index := prev ! (index - 1)]) = mset prev"
      using assms by (simp add: mset_swap)
    then show ?thesis using Up True assms
      by (simp add: handleMovePlatform_up those_map_Some)
  next
    case False
    then show ?thesis using Up by (simp add: handleMovePlatform_def those_map_Some)
  qed
next
  case Down
  show ?thesis
  proof (cases "index < length prev - 1")
    case True
    then have "index + 1 < length prev" by simp
    then have "mset (prev[index := prev ! (index + 1), index + 1 := prev ! index]) = mset prev"
      using assms by (simp add: mset_swap)
    then show ?thesis using Down True
      by (simp add: handleMovePlatform_down those_map_Some)
  next
    case False
    then show ?thesis using Down by (simp add: handleMovePlatform_def those_map_Some)
  qed
qed

text \<open>
  Beyond the end of the list (an index no button exists for) moving up is not a swap:
  the assignment extends the array and leaves a hole.
\<close>

lemma handleMovePlatform_beyond_end:
  "handleMovePlatform 2 Up [tabA, tabB] = [Some tabA, None, Some tabB]"
  by (simp add: handleMovePlatform_def js_get_def js_set_def)

text \<open>
  Claim C6. On a list of length \<open>n\<close>, moving up at an index \<open>0 < index < n\<close> swaps
  the elements \<open>index - 1\<close> and \<open>index\<close>, moving down at \<open>index < n - 1\<close> swaps
  the elements \<open>index\<close> and \<open>index + 1\<close>, moving the first element up or the last
  one down changes nothing, and at every index of the list the result holds the same
  records as before, each as often as before: only positions change.
\<close>

theorem handleMovePlatform_swaps_adjacent:
  "(0 < index \<and> index < length prev \<longrightarrow>
      handleMovePlatform index Up prev =
        map Some (prev[index - 1 := prev ! index, index := prev ! (index - 1)]))
   \<and> (index < length prev - 1 \<longrightarrow>
      handleMovePlatform index Down prev =
        map Some (prev[index := prev ! (index + 1), index + 1 := prev ! index]))
   \<and> handleMovePlatform 0 Up prev = map Some prev
   \<and> handleMovePlatform (length prev - 1) Down prev = map Some prev
   \<and> (index < length prev \<longrightarrow>
        (\<exists>ps. those (handleMovePlatform index dir prev) = Some ps
              \<and> mset ps = mset prev \<and> length ps = length prev))"
  using handleMovePlatform_up [of index prev] handleMovePlatform_down [of index prev]
        handleMovePlatform_boundary [of prev] handleMovePlatform_dense [of index prev dir]
  by blast

theorem handleMovePlatform_witness:
  "(0::nat) < 1 \<and> (1::nat) < length [tabA, tabB, tabC] \<and> (1::nat) < length [tabA, tabB, tabC] - 1
   \<and> handleMovePlatform 1 Up [tabA, tabB, tabC] = [Some tabB, Some tabA, Some tabC]
   \<and> handleMovePlatform 1 Down [tabA, tabB, tabC] = [Some tabA, Some tabC, Some tabB]
   \<and> those (handleMovePlatform 1 Down [tabA, tabB, tabC]) = Some [tabA, tabC, tabB]"
  using handleMovePlatform_swaps_adjacent [of 1 "[tabA, tabB, tabC]" Down]
  by (simp add: those_map_Some [of "[tabA, tabC, tabB]", simplified])


section \<open>Renders and effects\<close>

lemma webviewEffect_cases:
  "webviewEffect s = [] \<or> webviewEffect s = [HideAllWebviews]
   \<or> (\<exists>i u. webviewEffect s = [CreateOrShowWebview i u 70])"
  by (auto simp: webviewEffect_def split: option.splits)

lemma commit_calls:
  "\<exists>w1 w2. snd (commit s0 out) =
     issued out
     @ (if platformsSet out \<or> initialized (result out) \<noteq> initialized s0
        then saveEffect (result out) else [])
     @ w1 @ w2
     \<and> w1 \<in> {[], webviewEffect (result out)}
     \<and> (w2 = [] \<or> (\<exists>a. w2 = webviewEffect (result out\<lparr>activeTab := a\<rparr>)))"
  by (auto simp: commit_def Let_def split: option.splits)

text \<open>
  The effect that picks an active tab comes to rest after one step: what it asks for
  does not depend on the active id, so after its own \<open>setActiveTab\<close> it either keeps
  quiet or asks for the same id again, which React ignores.
\<close>

lemma reconcileActive_settled:
  "reconcileActive s = Some a \<Longrightarrow>
   reconcileActive (s\<lparr> activeTab := a \<rparr>) = None \<or> reconcileActive (s\<lparr> activeTab := a \<rparr>) = Some a"
  by (auto simp: reconcileActive_def Let_def split: if_splits)

lemma commit_state:
  "fst (commit s0 out) = result out \<or> (\<exists>a. fst (commit s0 out) = result out\<lparr>activeTab := a\<rparr>)"
  by (auto simp: commit_def Let_def split: option.splits)

lemma commit_platforms [simp]: "platforms (fst (commit s0 out)) = platforms (result out)"
  using commit_state [of s0 out] by auto

lemma commit_initialized [simp]: "initialized (fst (commit s0 out)) = initialized (result out)"
  using commit_state [of s0 out] by auto

lemma webviewEffect_no_write [simp]: "filter isWrite (webviewEffect s) = []"
  using webviewEffect_cases [of s] by (auto simp: isWrite_def)

lemma webviewEffect_no_save [simp]: "filter isSave (webviewEffect s) = []"
  using webviewEffect_cases [of s] by (auto simp: isSave_def)


section \<open>Loading and saving\<close>

lemma loadPlatformsAsync_primary:
  "Option.bind primary usable = Some ps \<Longrightarrow> loadPlatformsAsync primary legacy = (ps, [LoadPlatforms])"
  by (cases primary) (auto simp: loadPlatformsAsync_def)

lemma loadPlatformsAsync_legacy:
  "Option.bind primary usable = None \<Longrightarrow> legacy = Some saved \<Longrightarrow> usable saved = Some ps \<Longrightarrow>
   loadPlatformsAsync primary legacy = (ps, [LoadPlatforms, GetItem, SavePlatforms saved])"
  by (cases primary) (auto simp: loadPlatformsAsync_def)

lemma loadPlatformsAsync_empty:
  "Option.bind primary usable = None \<Longrightarrow> Option.bind legacy usable = None \<Longrightarrow>
   loadPlatformsAsync primary legacy = ([], [LoadPlatforms, GetItem])"
  by (cases primary; cases legacy) (auto simp: loadPlatformsAsync_def)

lemma loadPlatformsAsync_reads_legacy:
  "GetItem \<in> set (snd (loadPlatformsAsync primary legacy)) \<longleftrightarrow> Option.bind primary usable = None"
  by (cases primary; cases legacy) (auto simp: loadPlatformsAsync_def split: option.splits)

lemma loadPlatformsAsync_no_SetItem:
  "SetItem c \<notin> set (snd (loadPlatformsAsync primary legacy))"
  by (auto simp: loadPlatformsAsync_def split: option.splits)

lemma startup_mirrors_to_legacy:
  "SetItem (JArray (fst (loadPlatformsAsync primary legacy)))
     \<in> set (snd (step rt (LoadResolved primary legacy) s))"
proof -
  obtain loaded io where l: "loadPlatformsAsync primary legacy = (loaded, io)"
    by (cases "loadPlatformsAsync primary legacy")
  let ?out = "loadResolved primary legacy s"
  have p: "platformsSet ?out" "initialized (result ?out)" "platforms (result ?out) = loaded"
    by (simp_all add: loadResolved_def l)
  obtain w1 w2 where "snd (commit s ?out) = issued ?out @ saveEffect (result ?out) @ w1 @ w2"
    using commit_calls [of s ?out] p(1) by auto
  then show ?thesis using p by (simp add: step_def l saveEffect_def savePlatformsToFile_def)
qed

text \<open>
  Claim C7, as amended. The load reads local storage exactly when the file backend
  yields no usable list (rejected, unparseable, not an array, or empty); a usable
  list in local storage is returned and written to the file backend at once; with
  both unusable the load returns the empty list, and it has no error result at all.
  The load itself never writes local storage, but when it resolves the save effect
  runs and copies the loaded list into local storage as well, also when that list
  came from the file backend.
\<close>

theorem loadPlatformsAsync_fallback_and_mirror:
  "(GetItem \<in> set (snd (loadPlatformsAsync primary legacy)) \<longleftrightarrow> Option.bind primary usable = None)
   \<and> (Option.bind primary usable = Some ps \<longrightarrow>
        loadPlatformsAsync primary legacy = (ps, [LoadPlatforms]))
   \<and> (Option.bind primary usable = None \<and> legacy = Some saved \<and> usable saved = Some ps \<longrightarrow>
        loadPlatformsAsync primary legacy = (ps, [LoadPlatforms, GetItem, SavePlatforms saved]))
   \<and> (Option.bind primary usable = None \<and> Option.bind legacy usable = None \<longrightarrow>
        loadPlatformsAsync primary legacy = ([], [LoadPlatforms, GetItem]))
   \<and> (\<forall>c. SetItem c \<notin> set (snd (loadPlatformsAsync primary legacy)))
   \<and> SetItem (JArray (fst (loadPlatformsAsync primary legacy)))
        \<in> set (snd (step rt (LoadResolved primary legacy) s))"
  using loadPlatformsAsync_reads_legacy [of primary legacy]
        loadPlatformsAsync_primary [of primary ps legacy]
        loadPlatformsAsync_legacy [of primary legacy saved ps]
        loadPlatformsAsync_empty [of primary legacy]
        loadPlatformsAsync_no_SetItem [of _ primary legacy]
        startup_mirrors_to_legacy [of primary legacy rt s]
  by blast

theorem loadPlatformsAsync_witness:
  "Option.bind (Some (JArray [tabA])) usable = Some [tabA]
   \<and> loadPlatformsAsync (Some (JArray [tabA])) (Some (JArray [tabB])) = ([tabA], [LoadPlatforms])
   \<and> Option.bind (Some Unparseable) usable = None \<and> usable (JArray [tabB]) = Some [tabB]
   \<and> loadPlatformsAsync (Some Unparseable) (Some (JArray [tabB]))
       = ([tabB], [LoadPlatforms, GetItem, SavePlatforms (JArray [tabB])])
   \<and> Option.bind None usable = None \<and> Option.bind (Some NonArray) usable = None
   \<and> loadPlatformsAsync None (Some NonArray) = ([], [LoadPlatforms, GetItem])"
  using loadPlatformsAsync_fallback_and_mirror
          [of "Some (JArray [tabA])" "Some (JArray [tabB])" "[tabA]" "JArray [tabB]" example_runtime init]
        loadPlatformsAsync_fallback_and_mirror
          [of "Some Unparseable" "Some (JArray [tabB])" "[tabB]" "JArray [tabB]" example_runtime init]
        loadPlatformsAsync_fallback_and_mirror
          [of None "Some NonArray" "[]" NonArray example_runtime init]
  by (simp add: usable_def)

text \<open>
  The claim as stated fails: starting with a list in the file backend and nothing in
  local storage, the startup writes that list into local storage.
\<close>

theorem primary_data_reaches_legacy_counterexample:
  "fst (loadPlatformsAsync (Some (JArray [tabA])) None) = [tabA]
   \<and> SetItem (JArray [tabA])
        \<in> set (snd (run example_runtime init [LoadResolved (Some (JArray [tabA])) None]))"
  by (simp add: loadPlatformsAsync_def usable_def step_def commit_def loadResolved_def
        saveEffect_def savePlatformsToFile_def init_def Let_def split: option.splits)

lemma handle_initialized:
  "\<not> isLoadResolved e \<Longrightarrow> initialized (result (handle rt e s)) = initialized s"
  by (cases e)
     (auto simp: isLoadResolved_def unchanged_def selectTab_def toggleSettings_def resetAddForm_def
        resetQuickAdd_def handleAddPlatform_def handleRemovePlatform_def movePlatform_def
        handleReloadPlatform_def handleCloseTab_def panelItemClick_def openBlank_def
        quickAddConfirm_def handleQuickAdd_def quickAddCancel_def newTabRequest_def Let_def
        split: option.splits)

lemma handle_no_write:
  "\<not> isLoadResolved e \<Longrightarrow> filter isWrite (issued (handle rt e s)) = []"
  by (cases e)
     (auto simp: isLoadResolved_def isWrite_def unchanged_def selectTab_def toggleSettings_def
        handleAddPlatform_def handleRemovePlatform_def movePlatform_def
        handleReloadPlatform_def handleCloseTab_def panelItemClick_def openBlank_def
        quickAddConfirm_def handleQuickAdd_def quickAddCancel_def newTabRequest_def Let_def
        split: option.splits)

lemma isSave_isWrite: "isSave c \<Longrightarrow> isWrite c"
  by (cases c) (auto simp: isSave_def isWrite_def)

lemma no_write_no_save: "filter isWrite cs = [] \<Longrightarrow> filter isSave cs = []"
  by (auto simp: filter_empty_conv dest: isSave_isWrite)

lemma handle_platforms_unset:
  "\<not> platformsSet (handle rt e s) \<Longrightarrow> platforms (result (handle rt e s)) = platforms s"
  by (cases e)
     (auto simp: unchanged_def selectTab_def toggleSettings_def resetAddForm_def
        resetQuickAdd_def handleAddPlatform_def handleRemovePlatform_def movePlatform_def
        handleReloadPlatform_def handleCloseTab_def panelItemClick_def openBlank_def
        quickAddConfirm_def handleQuickAdd_def quickAddCancel_def newTabRequest_def
        loadResolved_def Let_def
        split: option.splits if_splits prod.splits)

lemma step_before_load:
  assumes "\<not> initialized s" "\<not> isLoadResolved e"
  shows "\<not> initialized (fst (step rt e s))" "filter isWrite (snd (step rt e s)) = []"
proof -
  let ?out = "handle rt e s"
  have i: "\<not> initialized (result ?out)" using assms by (simp add: handle_initialized)
  then show "\<not> initialized (fst (step rt e s))" by (simp add: step_def)
  obtain w1 w2 where c: "snd (commit s ?out) =
      issued ?out @ (if platformsSet ?out \<or> initialized (result ?out) \<noteq> initialized s
                     then saveEffect (result ?out) else []) @ w1 @ w2"
    and w1: "w1 \<in> {[], webviewEffect (result ?out)}"
    and w2: "w2 = [] \<or> (\<exists>a. w2 = webviewEffect (result ?out\<lparr>activeTab := a\<rparr>))"
    using commit_calls [of s ?out] by blast
  have "saveEffect (result ?out) = []" using i by (simp add: saveEffect_def)
  moreover have "filter isWrite w1 = []" using w1 by auto
  moreover have "filter isWrite w2 = []" using w2 by auto
  ultimately show "filter isWrite (snd (step rt e s)) = []"
    using c assms(2) by (simp add: step_def handle_no_write)
qed

lemma run_before_load:
  "\<not> initialized s \<Longrightarrow> \<not> list_ex isLoadResolved es \<Longrightarrow>
   \<not> initialized (fst (run rt s es)) \<and> filter isWrite (snd (run rt s es)) = []"
proof (induction es arbitrary: s)
  case Nil
  then show ?case by simp
next
  case (Cons e es)
  obtain s1 cs1 where s1: "step rt e s = (s1, cs1)" by (cases "step rt e s")
  obtain s2 cs2 where s2: "run rt s1 es = (s2, cs2)" by (cases "run rt s1 es")
  have e: "\<not> isLoadResolved e" and es: "\<not> list_ex isLoadResolved es" using Cons.prems by auto
  have "\<not> initialized s1" "filter isWrite cs1 = []"
    using step_before_load [OF Cons.prems(1) e, of rt] s1 by auto
  moreover from this have "\<not> initialized s2 \<and> filter isWrite cs2 = []"
    using Cons.IH [of s1] es s2 by auto
  ultimately show ?case by (simp add: s1 s2)
qed

lemma step_initialized:
  "initialized s \<or> isLoadResolved e \<Longrightarrow> initialized (fst (step rt e s))"
proof (cases "isLoadResolved e")
  case True
  then obtain p l where "e = LoadResolved p l" by (cases e) (auto simp: isLoadResolved_def)
  then show ?thesis by (simp add: step_def loadResolved_def split: prod.splits)
next
  case False
  assume "initialized s \<or> isLoadResolved e"
  then show ?thesis using False by (simp add: step_def handle_initialized)
qed

lemma run_initialized: "initialized s \<Longrightarrow> initialized (fst (run rt s es))"
proof (induction es arbitrary: s)
  case Nil
  then show ?case by simp
next
  case (Cons e es)
  have "initialized (fst (step rt e s))" using Cons.prems by (simp add: step_initialized)
  then have "initialized (fst (run rt (fst (step rt e s)) es))" by (rule Cons.IH)
  then show ?case by (simp add: split_beta)
qed

lemma run_after_load:
  "initialized (fst (run rt s (es1 @ LoadResolved primary legacy # es2)))"
proof (induction es1 arbitrary: s)
  case Nil
  have "initialized (fst (step rt (LoadResolved primary legacy) s))"
    by (simp add: step_initialized isLoadResolved_def)
  then have "initialized (fst (run rt (fst (step rt (LoadResolved primary legacy) s)) es2))"
    by (rule run_initialized)
  then show ?case by (simp add: split_beta)
next
  case (Cons e es1)
  show ?case using Cons.IH [of "fst (step rt e s)"] by (simp add: split_beta)
qed

lemma step_saves:
  assumes "initialized s" "\<not> isLoadResolved e"
  shows "filter isSave (snd (step rt e s)) =
         (if platformsSet (handle rt e s)
          then [SavePlatforms (JArray (platforms (fst (step rt e s))))] else [])"
proof -
  let ?out = "handle rt e s"
  have i: "initialized (result ?out)" using assms by (simp add: handle_initialized)
  obtain w1 w2 where c: "snd (commit s ?out) =
      issued ?out @ (if platformsSet ?out \<or> initialized (result ?out) \<noteq> initialized s
                     then saveEffect (result ?out) else []) @ w1 @ w2"
    and w1: "w1 \<in> {[], webviewEffect (result ?out)}"
    and w2: "w2 = [] \<or> (\<exists>a. w2 = webviewEffect (result ?out\<lparr>activeTab := a\<rparr>))"
    using commit_calls [of s ?out] by blast
  have "filter isSave (issued ?out) = []"
    using assms(2) by (simp add: handle_no_write no_write_no_save)
  moreover have "filter isSave w1 = []" using w1 by auto
  moreover have "filter isSave w2 = []" using w2 by auto
  ultimately show ?thesis
    using c i assms(1)
    by (simp add: step_def saveEffect_def savePlatformsToFile_def isSave_def)
qed

text \<open>
  Claim C3. From the initial state, a sequence of events in which the load has not
  resolved issues no write at all, neither to the file backend nor to local storage;
  once the load has resolved the component stays initialised; and from then on every
  event that changes the platform list issues exactly one \<open>save_platforms\<close> call,
  carrying the new list. (The write of a migrated legacy list belongs to the
  resolution of the load itself.)
\<close>

theorem no_write_before_load_one_write_per_mutation:
  "(\<not> list_ex isLoadResolved es \<longrightarrow> filter isWrite (snd (run rt init es)) = [])
   \<and> initialized (fst (run rt init (es1 @ LoadResolved primary legacy # es2)))
   \<and> (initialized s \<and> \<not> isLoadResolved e \<and> platforms (fst (step rt e s)) \<noteq> platforms s \<longrightarrow>
        filter isSave (snd (step rt e s)) = [SavePlatforms (JArray (platforms (fst (step rt e s))))])"
proof -
  have "\<not> initialized init" by (simp add: init_def)
  then have a: "\<not> list_ex isLoadResolved es \<longrightarrow> filter isWrite (snd (run rt init es)) = []"
    using run_before_load [of init es rt] by blast
  have c: "filter isSave (snd (step rt e s)) = [SavePlatforms (JArray (platforms (fst (step rt e s))))]"
    if "initialized s" "\<not> isLoadResolved e" "platforms (fst (step rt e s)) \<noteq> platforms s"
  proof -
    have "platformsSet (handle rt e s)"
      using that(3) handle_platforms_unset [of rt e s] by (auto simp: step_def)
    then show ?thesis using step_saves [OF that(1,2), of rt] by simp
  qed
  show ?thesis using a c run_after_load [of rt init es1 primary legacy es2] by blast
qed

theorem no_write_before_load_witness:
  "\<not> list_ex isLoadResolved
        [TypeNewName (js ''DeepSeek''), TypeNewUrl (js ''chat.deepseek.com''), AddPlatform 7]
   \<and> filter isWrite (snd (run example_runtime init
        [TypeNewName (js ''DeepSeek''), TypeNewUrl (js ''chat.deepseek.com''), AddPlatform 7])) = []
   \<and> initialized stateAB \<and> \<not> isLoadResolved (RemovePlatform (js ''a''))
   \<and> platforms (fst (step example_runtime (RemovePlatform (js ''a'')) stateAB)) \<noteq> platforms stateAB
   \<and> filter isSave (snd (step example_runtime (RemovePlatform (js ''a'')) stateAB))
       = [SavePlatforms (JArray [tabB])]"
proof -
  let ?es = "[TypeNewName (js ''DeepSeek''), TypeNewUrl (js ''chat.deepseek.com''), AddPlatform 7]"
  let ?e = "RemovePlatform (js ''a'')"
  have h1: "\<not> list_ex isLoadResolved ?es" by (simp add: isLoadResolved_def)
  have h2: "initialized stateAB" "\<not> isLoadResolved ?e"
    by (simp_all add: stateAB_def isLoadResolved_def)
  have p: "platforms (fst (step example_runtime ?e stateAB)) = [tabB]"
    by (simp add: step_def handleRemovePlatform_def stateAB_def tabA_def tabB_def js_def)
  have h3: "platforms (fst (step example_runtime ?e stateAB)) \<noteq> platforms stateAB"
    by (simp add: p) (simp add: stateAB_def)
  show ?thesis
    using no_write_before_load_one_write_per_mutation
            [of ?es example_runtime "[]" None None "[]" stateAB ?e] h1 h2 h3
    by (simp only: p) blast
qed


section \<open>The settings overlay\<close>

lemma step_toggleSettings:
  "snd (step rt ToggleSettings s) =
     issued (toggleSettings s) @ webviewEffect (result (toggleSettings s))"
  by (simp add: step_def commit_def Let_def toggleSettings_def resetAddForm_def)

lemma find_visible:
  "find (\<lambda>p. id' p = a) ps = Some p \<Longrightarrow> \<not> hidden p \<Longrightarrow>
   find (\<lambda>p. id' p = a \<and> \<not> hidden p) ps = Some p"
  by (induction ps) (auto split: if_splits)

lemma find_visible_None:
  "\<not> list_ex (\<lambda>p. id' p = a \<and> \<not> hidden p) ps \<Longrightarrow>
   find (\<lambda>p. id' p = a \<and> \<not> hidden p) ps = None"
  by (induction ps) auto

lemma find_None_ex: "\<not> list_ex P ps \<Longrightarrow> find P ps = None"
  by (induction ps) auto

text \<open>
  The calls of the toggle, case by case. Opening issues one \<open>hide_all_webviews\<close>.
  On closing, the handler shows the active persistent tab (top offset 78, no test of
  the url) and the webview effect, which re-runs because \<open>showSettings\<close> is among
  its dependencies, then shows the active tab again (top offset 70) or hides all when
  its url is blank; a temporary tab is seen by the effect only.
\<close>

lemma toggleSettings_calls:
  "(\<not> showSettings s \<longrightarrow>
      snd (step rt ToggleSettings s) = [HideAllWebviews] \<and> showSettings (fst (step rt ToggleSettings s)))
   \<and> (showSettings s \<and> activeTab s \<noteq> []
        \<and> find (\<lambda>p. id' p = activeTab s) (tempTabs s) = None
        \<and> find (\<lambda>p. id' p = activeTab s) (platforms s) = Some p
        \<and> \<not> hidden p \<and> \<not> blank (url p) \<longrightarrow>
      snd (step rt ToggleSettings s) =
        [CreateOrShowWebview (id' p) (url p) 78, CreateOrShowWebview (id' p) (url p) 70])
   \<and> (showSettings s \<and> activeTab s \<noteq> []
        \<and> find (\<lambda>p. id' p = activeTab s) (tempTabs s) = Some t
        \<and> \<not> list_ex (\<lambda>p. id' p = activeTab s \<and> \<not> hidden p) (platforms s) \<longrightarrow>
      snd (step rt ToggleSettings s) =
        (if blank (url t) then [HideAllWebviews] else [CreateOrShowWebview (id' t) (url t) 70]))
   \<and> (showSettings s
        \<and> \<not> list_ex (\<lambda>p. id' p = activeTab s) (platforms s)
        \<and> \<not> list_ex (\<lambda>p. id' p = activeTab s) (tempTabs s) \<longrightarrow>
      snd (step rt ToggleSettings s) = [])
   \<and> (showSettings s \<longrightarrow> \<not> showSettings (fst (step rt ToggleSettings s))
        \<and> activeTab (fst (step rt ToggleSettings s)) = activeTab s)"
proof (intro conjI impI; (elim conjE)?)
  assume "\<not> showSettings s"
  then show "snd (step rt ToggleSettings s) = [HideAllWebviews]"
    and "showSettings (fst (step rt ToggleSettings s))"
    by (simp_all add: step_def commit_def Let_def toggleSettings_def webviewEffect_def)
next
  assume a: "showSettings s" "activeTab s \<noteq> []"
    "find (\<lambda>p. id' p = activeTab s) (tempTabs s) = None"
    "find (\<lambda>p. id' p = activeTab s) (platforms s) = Some p" "\<not> hidden p" "\<not> blank (url p)"
  then show "snd (step rt ToggleSettings s) =
        [CreateOrShowWebview (id' p) (url p) 78, CreateOrShowWebview (id' p) (url p) 70]"
    using find_visible [OF a(4,5)]
    by (simp add: step_toggleSettings toggleSettings_def webviewEffect_def resetAddForm_def)
next
  assume a: "showSettings s" "activeTab s \<noteq> []"
    "find (\<lambda>p. id' p = activeTab s) (tempTabs s) = Some t"
    "\<not> list_ex (\<lambda>p. id' p = activeTab s \<and> \<not> hidden p) (platforms s)"
  then show "snd (step rt ToggleSettings s) =
        (if blank (url t) then [HideAllWebviews] else [CreateOrShowWebview (id' t) (url t) 70])"
    using find_visible_None [OF a(4)]
    by (simp add: step_toggleSettings toggleSettings_def webviewEffect_def resetAddForm_def)
next
  assume a: "showSettings s" "\<not> list_ex (\<lambda>p. id' p = activeTab s) (platforms s)"
    "\<not> list_ex (\<lambda>p. id' p = activeTab s) (tempTabs s)"
  have "\<not> list_ex (\<lambda>p. id' p = activeTab s \<and> \<not> hidden p) (platforms s)"
    using a(2) by (auto simp: list_ex_iff)
  then have "find (\<lambda>p. id' p = activeTab s \<and> \<not> hidden p) (platforms s) = None"
    by (rule find_visible_None)
  then show "snd (step rt ToggleSettings s) = []"
    using a(1) find_None_ex [OF a(2)] find_None_ex [OF a(3)]
    by (simp add: step_toggleSettings toggleSettings_def webviewEffect_def resetAddForm_def)
next
  assume "showSettings s"
  then show "\<not> showSettings (fst (step rt ToggleSettings s))"
    and "activeTab (fst (step rt ToggleSettings s)) = activeTab s"
    by (simp_all add: step_def commit_def Let_def toggleSettings_def resetAddForm_def)
qed

lemma not_blank_examples:
  "\<not> blank (js ''https://a.example'')" "\<not> blank (js ''https://b.example'')"
  "\<not> blank (js ''https://example.com/x'')"
  by (simp_all add: blank_def trim_def js_def isWhiteSpace_def)

lemma toggleSettings_examples:
  "\<not> showSettings stateAB
   \<and> snd (step example_runtime ToggleSettings stateAB) = [HideAllWebviews]
   \<and> showSettings overlayAB \<and> activeTab overlayAB \<noteq> []
   \<and> find (\<lambda>p. id' p = activeTab overlayAB) (tempTabs overlayAB) = None
   \<and> find (\<lambda>p. id' p = activeTab overlayAB) (platforms overlayAB) = Some tabA
   \<and> \<not> hidden tabA \<and> \<not> blank (url tabA)
   \<and> snd (step example_runtime ToggleSettings overlayAB) =
        [CreateOrShowWebview (js ''a'') (js ''https://a.example'') 78,
         CreateOrShowWebview (js ''a'') (js ''https://a.example'') 70]
   \<and> showSettings overlayT \<and> activeTab overlayT \<noteq> []
   \<and> find (\<lambda>p. id' p = activeTab overlayT) (tempTabs overlayT) = Some tabT
   \<and> \<not> list_ex (\<lambda>p. id' p = activeTab overlayT \<and> \<not> hidden p) (platforms overlayT)
   \<and> snd (step example_runtime ToggleSettings overlayT) =
        [CreateOrShowWebview (js ''tmp-17'') (js ''https://example.com/x'') 70]
   \<and> showSettings overlayEmpty
   \<and> \<not> list_ex (\<lambda>p. id' p = activeTab overlayEmpty) (platforms overlayEmpty)
   \<and> \<not> list_ex (\<lambda>p. id' p = activeTab overlayEmpty) (tempTabs overlayEmpty)
   \<and> snd (step example_runtime ToggleSettings overlayEmpty) = []"
proof -
  have h1: "\<not> showSettings stateAB" by (simp add: stateAB_def init_def)
  have h2: "showSettings overlayAB" "activeTab overlayAB \<noteq> []"
    "find (\<lambda>p. id' p = activeTab overlayAB) (tempTabs overlayAB) = None"
    "find (\<lambda>p. id' p = activeTab overlayAB) (platforms overlayAB) = Some tabA"
    "\<not> hidden tabA" "\<not> blank (url tabA)"
    using not_blank_examples
    by (simp_all add: overlayAB_def stateAB_def init_def tabA_def js_def)
  have h3: "showSettings overlayT" "activeTab overlayT \<noteq> []"
    "find (\<lambda>p. id' p = activeTab overlayT) (tempTabs overlayT) = Some tabT"
    "\<not> list_ex (\<lambda>p. id' p = activeTab overlayT \<and> \<not> hidden p) (platforms overlayT)"
    by (simp_all add: overlayT_def init_def tabT_def js_def)
  have h4: "showSettings overlayEmpty"
    "\<not> list_ex (\<lambda>p. id' p = activeTab overlayEmpty) (platforms overlayEmpty)"
    "\<not> list_ex (\<lambda>p. id' p = activeTab overlayEmpty) (tempTabs overlayEmpty)"
    by (simp_all add: overlayEmpty_def init_def)
  have v: "id' tabA = js ''a''" "url tabA = js ''https://a.example''"
    "id' tabT = js ''tmp-17''" "url tabT = js ''https://example.com/x''"
    by (simp_all add: tabA_def tabT_def)
  have b: "\<not> blank (url tabT)" using not_blank_examples by (simp add: v)
  show ?thesis
    using toggleSettings_calls [of stateAB example_runtime tabA tabT, THEN conjunct1]
          toggleSettings_calls [of overlayAB example_runtime tabA tabT, THEN conjunct2, THEN conjunct1]
          toggleSettings_calls [of overlayT example_runtime tabA tabT, THEN conjunct2, THEN conjunct2, THEN conjunct1]
          toggleSettings_calls [of overlayEmpty example_runtime tabA tabT, THEN conjunct2, THEN conjunct2,
             THEN conjunct2, THEN conjunct1]
          h1 h2 h3 h4 b
    by (simp add: v)
qed

text \<open>
  Claim C4 at the inputs where the code departs from it. Opening the overlay with the
  persistent tab \<open>a\<close> active issues \<open>hide_all_webviews\<close> once, as claimed. Closing
  it with \<open>a\<close> still active issues \<open>create_or_show_webview\<close> for \<open>a\<close> twice, by
  the handler with top offset 78 and by the effect with top offset 70, where the
  claim has exactly one call; closing onto a temporary tab issues the one call of the
  effect. Closing onto a persistent tab with an empty url issues
  \<open>create_or_show_webview\<close> with that empty url before \<open>hide_all_webviews\<close>, where
  the claim has no surface shown.
\<close>

theorem toggleSettings_close_shows_twice:
  "snd (run example_runtime stateAB [ToggleSettings, ToggleSettings]) =
     [HideAllWebviews,
      CreateOrShowWebview (js ''a'') (js ''https://a.example'') 78,
      CreateOrShowWebview (js ''a'') (js ''https://a.example'') 70]
   \<and> fst (step example_runtime ToggleSettings stateAB) = overlayAB
   \<and> length (filter (isShow (js ''a''))
        (snd (step example_runtime ToggleSettings overlayAB))) = 2
   \<and> snd (step example_runtime ToggleSettings overlayT) =
        [CreateOrShowWebview (js ''tmp-17'') (js ''https://example.com/x'') 70]
   \<and> blank (url tabBlank)
   \<and> snd (step example_runtime ToggleSettings overlayBlank) =
        [CreateOrShowWebview (js ''d'') [] 78, HideAllWebviews]"
  by code_simp

section \<open>Closing a persistent tab\<close>

lemma closeTab_persistent:
  assumes ps: "platforms s = [a, b] \<or> platforms s = [b, a]"
    and vis: "\<not> hidden a" "\<not> hidden b"
    and ids: "id' a \<noteq> id' b"
    and act: "activeTab s = id' a"
    and tmp: "\<not> list_ex (\<lambda>p. id' p = id' a) (tempTabs s)"
  shows "platforms (fst (step rt (CloseTab (id' a)) s))
           = map (\<lambda>p. if p = a then a\<lparr> hidden := True \<rparr> else p) (platforms s)"
    and "activeTab (fst (step rt (CloseTab (id' a)) s)) = id' b"
    and "snd (step rt (CloseTab (id' a)) s) =
           DestroyWebview (id' a)
           # saveEffect (fst (step rt (CloseTab (id' a)) s))
           @ webviewEffect (fst (step rt (CloseTab (id' a)) s))"
proof -
  let ?out = "handleCloseTab (id' a) s"
  let ?s1 = "result ?out"
  have ne: "a \<noteq> b" using ids by auto
  have p1: "platforms ?s1 = map (\<lambda>p. if p = a then a\<lparr> hidden := True \<rparr> else p) (platforms s)"
    using ps ids tmp ne by (auto simp: handleCloseTab_def Let_def)
  have a1: "activeTab ?s1 = id' b"
    using ps ids tmp vis act by (auto simp: handleCloseTab_def Let_def visible_def firstId_def)
  have t1: "tempTabs ?s1 = tempTabs s" using tmp by (simp add: handleCloseTab_def Let_def)
  have f: "platformsSet ?out" "issued ?out = [DestroyWebview (id' a)]"
    using tmp by (simp_all add: handleCloseTab_def Let_def)
  have r: "reconcileActive ?s1 = None \<or> reconcileActive ?s1 = Some (id' b)"
    using ps ids vis ne by (auto simp: reconcileActive_def p1 a1 visible_def Let_def)
  have c: "commit s ?out = (?s1, issued ?out @ saveEffect ?s1 @ webviewEffect ?s1)"
    using r f(1) a1 by (auto simp: commit_def Let_def)
  show "platforms (fst (step rt (CloseTab (id' a)) s))
           = map (\<lambda>p. if p = a then a\<lparr> hidden := True \<rparr> else p) (platforms s)"
    by (simp add: step_def c p1)
  show "activeTab (fst (step rt (CloseTab (id' a)) s)) = id' b"
    by (simp add: step_def c a1)
  show "snd (step rt (CloseTab (id' a)) s) =
           DestroyWebview (id' a)
           # saveEffect (fst (step rt (CloseTab (id' a)) s))
           @ webviewEffect (fst (step rt (CloseTab (id' a)) s))"
    by (simp add: step_def c f)
qed

lemma count_Destroy_effects:
  "count_list (saveEffect s @ webviewEffect s') (DestroyWebview i) = 0"
  using webviewEffect_cases [of s']
  by (auto simp: saveEffect_def savePlatformsToFile_def)

text \<open>
  Claim C5, as amended. With two visible persistent tabs \<open>a\<close> and \<open>b\<close> (in either
  order), \<open>a\<close> active and no temporary tab of the same id, closing \<open>a\<close> in the tab
  strip sets the hidden flag of \<open>a\<close> and of no other record, makes \<open>b\<close> the active
  tab, and issues \<open>destroy_webview\<close> for \<open>a\<close> exactly once, as the first call.
\<close>

theorem closeTab_hides_and_destroys:
  assumes "platforms s = [a, b] \<or> platforms s = [b, a]"
    and "\<not> hidden a" and "\<not> hidden b"
    and "id' a \<noteq> id' b"
    and "activeTab s = id' a"
    and "\<not> list_ex (\<lambda>p. id' p = id' a) (tempTabs s)"
  shows "platforms (fst (step rt (CloseTab (id' a)) s))
           = map (\<lambda>p. if p = a then a\<lparr> hidden := True \<rparr> else p) (platforms s)
       \<and> activeTab (fst (step rt (CloseTab (id' a)) s)) = id' b
       \<and> hd (snd (step rt (CloseTab (id' a)) s)) = DestroyWebview (id' a)
       \<and> count_list (snd (step rt (CloseTab (id' a)) s)) (DestroyWebview (id' a)) = 1"
proof -
  note c = closeTab_persistent [OF assms, of rt]
  have "count_list (snd (step rt (CloseTab (id' a)) s)) (DestroyWebview (id' a)) = 1"
    by (subst c(3)) (simp only: count_list.simps count_Destroy_effects, simp)
  then show ?thesis using c(1,2) by (simp add: c(3))
qed

theorem closeTab_witness:
  "(platforms stateAB = [tabA, tabB] \<or> platforms stateAB = [tabB, tabA])
   \<and> \<not> hidden tabA \<and> \<not> hidden tabB \<and> id' tabA \<noteq> id' tabB \<and> activeTab stateAB = id' tabA
   \<and> \<not> list_ex (\<lambda>p. id' p = id' tabA) (tempTabs stateAB)
   \<and> platforms (fst (step example_runtime (CloseTab (id' tabA)) stateAB))
        = [tabA\<lparr> hidden := True \<rparr>, tabB]
   \<and> activeTab (fst (step example_runtime (CloseTab (id' tabA)) stateAB)) = js ''b''
   \<and> count_list (snd (step example_runtime (CloseTab (id' tabA)) stateAB))
        (DestroyWebview (id' tabA)) = 1"
proof -
  have h: "platforms stateAB = [tabA, tabB] \<or> platforms stateAB = [tabB, tabA]"
    "\<not> hidden tabA" "\<not> hidden tabB" "id' tabA \<noteq> id' tabB" "activeTab stateAB = id' tabA"
    "\<not> list_ex (\<lambda>p. id' p = id' tabA) (tempTabs stateAB)"
    by (simp_all add: stateAB_def init_def tabA_def tabB_def js_def)
  have ne: "tabB \<noteq> tabA" using h(4) by auto
  have p: "platforms stateAB = [tabA, tabB]" by (simp add: stateAB_def)
  have b: "id' tabB = js ''b''" by (simp add: tabB_def)
  show ?thesis
    using closeTab_hides_and_destroys [OF h, of example_runtime] h ne
    by (simp add: p b)
qed

text \<open>
  The claim as stated fails: hiding the active tab \<open>a\<close> does invoke
  \<open>destroy_webview\<close> for it.
\<close>

theorem closeTab_destroys_counterexample:
  "platforms stateAB = [tabA, tabB] \<and> activeTab stateAB = js ''a''
   \<and> DestroyWebview (js ''a'') \<in> set (snd (step example_runtime (CloseTab (js ''a'')) stateAB))"
proof -
  have h: "platforms stateAB = [tabA, tabB] \<or> platforms stateAB = [tabB, tabA]"
    "\<not> hidden tabA" "\<not> hidden tabB" "id' tabA \<noteq> id' tabB" "activeTab stateAB = id' tabA"
    "\<not> list_ex (\<lambda>p. id' p = id' tabA) (tempTabs stateAB)"
    by (simp_all add: stateAB_def init_def tabA_def tabB_def js_def)
  have a: "id' tabA = js ''a''" by (simp add: tabA_def)
  show ?thesis
    using closeTab_persistent(3) [OF h, of example_runtime]
    by (simp add: a) (simp add: stateAB_def)
qed


section \<open>New-tab requests\<close>

lemma string_of_nat_17: "string_of_nat 17 = js ''17''"
  by (simp add: string_of_nat.simps [of 17] string_of_nat.simps [of "Suc 0"] js_def)

lemma tmp_id_nonempty: "js ''tmp-'' @ x \<noteq> []"
  by (simp add: js_def)

lemma find_not_hidden:
  "\<forall>p \<in> set ps. id' p = i \<longrightarrow> \<not> hidden p \<Longrightarrow>
   (case find (\<lambda>p. id' p = i) ps of Some p \<Rightarrow> hidden p | None \<Rightarrow> False) = False"
  by (induction ps) auto

lemma newTabRequest_step:
  assumes "u \<noteq> []"
    and "\<forall>p \<in> set (platforms s). id' p = js ''tmp-'' @ string_of_nat now \<longrightarrow> \<not> hidden p"
  shows "fst (step rt (NewTabRequest u now) s) =
         s\<lparr> tempTabs := tempTabs s @ [\<lparr> id' = js ''tmp-'' @ string_of_nat now,
                                        name = deriveNameFromUrl rt u, url = u, hidden = False \<rparr>],
            activeTab := js ''tmp-'' @ string_of_nat now \<rparr>"
proof -
  let ?i = "js ''tmp-'' @ string_of_nat now"
  let ?s1 = "s\<lparr> tempTabs := tempTabs s @ [\<lparr> id' = ?i, name = deriveNameFromUrl rt u, url = u,
                                           hidden = False \<rparr>], activeTab := ?i \<rparr>"
  have out: "newTabRequest rt u now s =
      \<lparr> result = ?s1, issued = [], platformsSet = False, tempTabsSet = True \<rparr>"
    using assms(1) by (simp add: newTabRequest_def Let_def)
  have "reconcileActive ?s1 = None"
    using find_not_hidden [OF assms(2)] tmp_id_nonempty [of "string_of_nat now"]
    by (simp add: reconcileActive_def Let_def)
  then show ?thesis by (simp add: step_def out commit_def Let_def)
qed

lemma deriveNameFromUrl_cases:
  "(URL_hostname rt u = Some h \<and> strip_www h \<noteq> [] \<longrightarrow> deriveNameFromUrl rt u = strip_www h)
   \<and> (URL_hostname rt u = None \<or> (URL_hostname rt u = Some h \<and> strip_www h = []) \<longrightarrow>
        deriveNameFromUrl rt u = NEW_TAB_LABEL)"
  by (auto simp: deriveNameFromUrl_def)

text \<open>
  Claim C8, as amended. A \<open>new_tab_request\<close> event with a non-empty url, in any
  state in which no hidden persistent tab carries the generated id, appends exactly
  one temporary tab with the delivered url and makes it the active tab. Its name is
  the host name of the url without a leading \<open>www.\<close> when the url parses and that
  name is not empty, and the fixed label otherwise.
\<close>

theorem newTabRequest_opens_named_tab:
  assumes "u \<noteq> []"
    and "\<forall>p \<in> set (platforms s). id' p = js ''tmp-'' @ string_of_nat now \<longrightarrow> \<not> hidden p"
  shows "fst (step rt (NewTabRequest u now) s) =
           s\<lparr> tempTabs := tempTabs s @ [\<lparr> id' = js ''tmp-'' @ string_of_nat now,
                                          name = deriveNameFromUrl rt u, url = u, hidden = False \<rparr>],
              activeTab := js ''tmp-'' @ string_of_nat now \<rparr>
       \<and> (URL_hostname rt u = Some h \<and> strip_www h \<noteq> [] \<longrightarrow> deriveNameFromUrl rt u = strip_www h)
       \<and> (URL_hostname rt u = None \<or> (URL_hostname rt u = Some h \<and> strip_www h = []) \<longrightarrow>
            deriveNameFromUrl rt u = NEW_TAB_LABEL)"
  using newTabRequest_step [OF assms, of rt] deriveNameFromUrl_cases [of rt u h] by blast

lemma example_hostnames:
  "example_hostname (js ''https://example.com/x'') = Some (js ''example.com'')"
  "example_hostname (js ''https://www.example.com/x'') = Some (js ''www.example.com'')"
  "example_hostname (js ''about:blank'') = Some []"
  "example_hostname (js ''not a url'') = None"
  by (simp_all add: example_hostname_def hostOfAuthority_def js_def isAlpha_def isSchemeChar_def
        isSpecialScheme_def isAuthorityEnd_def asciiLower_def Let_def)

lemma deriveNameFromUrl_example:
  "deriveNameFromUrl example_runtime (js ''https://example.com/x'') = js ''example.com''"
  by (simp add: deriveNameFromUrl_def example_runtime_def example_hostnames strip_www_def)
     (simp add: js_def)

theorem newTabRequest_witness:
  "js ''https://www.example.com/x'' \<noteq> []
   \<and> \<not> list_ex (\<lambda>p. id' p = js ''tmp-'' @ string_of_nat 17 \<and> hidden p) (platforms stateAB)
   \<and> URL_hostname example_runtime (js ''https://www.example.com/x'') = Some (js ''www.example.com'')
   \<and> strip_www (js ''www.example.com'') \<noteq> []
   \<and> fst (step example_runtime (NewTabRequest (js ''https://www.example.com/x'') 17) stateAB) =
        stateAB\<lparr> tempTabs := [\<lparr> id' = js ''tmp-17'', name = js ''example.com'',
                                 url = js ''https://www.example.com/x'', hidden = False \<rparr>],
                 activeTab := js ''tmp-17'' \<rparr>
   \<and> URL_hostname example_runtime (js ''about:blank'') = Some [] \<and> strip_www [] = []
   \<and> deriveNameFromUrl example_runtime (js ''about:blank'') = NEW_TAB_LABEL"
proof -
  have h1: "js ''https://www.example.com/x'' \<noteq> []" "js ''about:blank'' \<noteq> []"
    by (simp_all add: js_def)
  have h2: "\<forall>p \<in> set (platforms stateAB). id' p = js ''tmp-'' @ string_of_nat 17 \<longrightarrow> \<not> hidden p"
    by (simp add: stateAB_def tabA_def tabB_def)
  have n: "URL_hostname example_runtime = example_hostname" by (simp add: example_runtime_def)
  have w: "strip_www (js ''www.example.com'') = js ''example.com''" "strip_www [] = []"
    by (simp_all add: strip_www_def js_def)
  have e: "js ''example.com'' \<noteq> []" by (simp add: js_def)
  have i: "js ''tmp-'' @ string_of_nat 17 = js ''tmp-17''"
    by (simp add: string_of_nat_17) (simp add: js_def)
  have t: "tempTabs stateAB = []" by (simp add: stateAB_def init_def)
  show ?thesis
    using newTabRequest_opens_named_tab [OF h1(1) h2, of example_runtime "js ''www.example.com''"]
          newTabRequest_opens_named_tab [OF h1(2) h2, of example_runtime "[]"]
          h1 h2 e
    by (simp add: n example_hostnames w i t list_ex_iff)
qed

text \<open>
  The claim as stated fails: \<open>about:blank\<close> parses with an empty host name and the
  new tab is named by the fixed label, not by the (empty) host name; a url that does
  not parse has no host name at all and gets the same label.
\<close>

theorem newTabRequest_fallback_name_counterexample:
  "js ''about:blank'' \<noteq> []
   \<and> URL_hostname example_runtime (js ''about:blank'') = Some []
   \<and> tempTabs (fst (step example_runtime (NewTabRequest (js ''about:blank'') 17) init))
       = [\<lparr> id' = js ''tmp-17'', name = NEW_TAB_LABEL, url = js ''about:blank'', hidden = False \<rparr>]
   \<and> NEW_TAB_LABEL \<noteq> strip_www []
   \<and> URL_hostname example_runtime (js ''not a url'') = None
   \<and> name (last (tempTabs (fst (step example_runtime (NewTabRequest (js ''not a url'') 17) init))))
       = NEW_TAB_LABEL"
proof -
  have h1: "js ''about:blank'' \<noteq> []" "js ''not a url'' \<noteq> []" by (simp_all add: js_def)
  have h2: "\<forall>p \<in> set (platforms init). id' p = js ''tmp-'' @ string_of_nat 17 \<longrightarrow> \<not> hidden p"
    by (simp add: init_def)
  have n: "URL_hostname example_runtime = example_hostname" by (simp add: example_runtime_def)
  have d: "deriveNameFromUrl example_runtime (js ''about:blank'') = NEW_TAB_LABEL"
    "deriveNameFromUrl example_runtime (js ''not a url'') = NEW_TAB_LABEL"
    by (simp_all add: deriveNameFromUrl_def n example_hostnames strip_www_def)
  have i: "js ''tmp-'' @ string_of_nat 17 = js ''tmp-17''"
    by (simp add: string_of_nat_17) (simp add: js_def)
  have l: "NEW_TAB_LABEL \<noteq> strip_www []" by (simp add: NEW_TAB_LABEL_def strip_www_def)
  show ?thesis
    using h1 l
    by (simp add: newTabRequest_step [OF h1(1) h2] newTabRequest_step [OF h1(2) h2]
          n example_hostnames d i) (simp add: init_def)
qed


section \<open>The active tab\<close>

lemma commit_activeTab:
  "activeTab (fst (commit s0 out)) =
     (if platformsSet out \<or> tempTabsSet out \<or> activeTab (result out) \<noteq> activeTab s0
      then (case reconcileActive (result out) of None \<Rightarrow> activeTab (result out) | Some a \<Rightarrow> a)
      else activeTab (result out))"
  by (auto simp: commit_def Let_def split: option.splits)

lemma commit_other_fields:
  "platforms (fst (commit s0 out)) = platforms (result out)"
  "tempTabs (fst (commit s0 out)) = tempTabs (result out)"
  "showSettings (fst (commit s0 out)) = showSettings (result out)"
  by (auto simp: commit_def Let_def split: option.splits)

lemma allTabs_commit: "allTabs (fst (commit s0 out)) = allTabs (result out)"
  by (simp add: allTabs_def commit_other_fields)

lemma reconcileActive_Some:
  "reconcileActive s = Some a \<Longrightarrow> allTabs s \<noteq> [] \<and> a = id' (hd (allTabs s))"
  by (auto simp: reconcileActive_def allTabs_def Let_def split: if_splits)

lemma find_hd: "ps \<noteq> [] \<Longrightarrow> find (\<lambda>p. id' p = id' (hd ps)) ps = Some (hd ps)"
  by (cases ps) auto

lemma hd_visible: "ps \<noteq> [] \<Longrightarrow> \<not> hidden (hd ps) \<Longrightarrow> hd (visible ps @ ts) = hd ps"
  by (cases ps) (auto simp: visible_def)

text \<open>Where the selection goes when the active platform is removed.\<close>

lemma remove_active:
  fixes rt :: runtime and s :: state and i :: jsstring
  assumes "activeTab s = i"
  defines "s' \<equiv> fst (step rt (RemovePlatform i) s)"
  shows "platforms s' = filter (\<lambda>p. id' p \<noteq> i) (platforms s)"
    and "tempTabs s' = tempTabs s"
    and "allTabs s' \<noteq> [] \<Longrightarrow> activeTab s' = id' (hd (allTabs s'))"
    and "allTabs s' = [] \<Longrightarrow>
         activeTab s' = (if platforms s' \<noteq> [] then id' (hd (platforms s')) else [])"
proof -
  let ?out = "handleRemovePlatform i s"
  let ?s1 = "result ?out"
  let ?upd = "filter (\<lambda>p. id' p \<noteq> i) (platforms s)"
  have f: "platformsSet ?out" "platforms ?s1 = ?upd" "tempTabs ?s1 = tempTabs s"
    "activeTab ?s1 = (if ?upd \<noteq> [] then id' (hd ?upd) else [])"
    using assms(1) by (simp_all add: handleRemovePlatform_def Let_def)
  show p: "platforms s' = ?upd" and t: "tempTabs s' = tempTabs s"
    by (simp_all add: s'_def step_def commit_other_fields f)
  have all: "allTabs s' = allTabs ?s1" by (simp add: s'_def step_def allTabs_commit)
  have act: "activeTab s' =
      (case reconcileActive ?s1 of None \<Rightarrow> activeTab ?s1 | Some a \<Rightarrow> a)"
    using f(1) by (simp add: s'_def step_def commit_activeTab)
  show "activeTab s' = id' (hd (allTabs s'))" if ne: "allTabs s' \<noteq> []"
  proof (cases "reconcileActive ?s1")
    case (Some a)
    then show ?thesis using reconcileActive_Some [OF Some] act all by simp
  next
    case None
    have "allTabs ?s1 = visible ?upd @ tempTabs s" by (simp add: allTabs_def f)
    then have n: "visible ?upd @ tempTabs s \<noteq> []" using ne all by metis
    have u: "?upd \<noteq> []"
      using None n by (auto simp: reconcileActive_def Let_def f split: if_splits)
    have "\<not> hidden (hd ?upd)"
      using None n u find_hd [OF u]
      by (auto simp: reconcileActive_def Let_def f split: if_splits)
    then have "hd (allTabs ?s1) = hd ?upd"
      using u by (simp add: allTabs_def f hd_visible)
    then show ?thesis using None act all u by (simp add: f)
  qed
  show "activeTab s' = (if platforms s' \<noteq> [] then id' (hd (platforms s')) else [])"
    if e: "allTabs s' = []"
  proof -
    have "reconcileActive ?s1 = None"
      using e all by (simp add: reconcileActive_def allTabs_def Let_def)
    then show ?thesis using act by (simp add: f p)
  qed
qed

lemma reconcileActive_None_iff:
  "reconcileActive s = None \<longleftrightarrow>
     allTabs s = [] \<or> (activeTab s \<noteq> [] \<and> \<not> hiddenAt (activeTab s) (platforms s))"
  by (simp add: reconcileActive_def allTabs_def hiddenAt_def Let_def)

lemma hiddenAt_filter_other:
  "i \<noteq> a \<Longrightarrow> hiddenAt a (filter (\<lambda>p. id' p \<noteq> i) ps) = hiddenAt a ps"
  by (induction ps) (auto simp: hiddenAt_def)

lemma hiddenAt_hide_other:
  "i \<noteq> a \<Longrightarrow> hiddenAt a (map (\<lambda>p. if id' p = i then p\<lparr> hidden := True \<rparr> else p) ps) = hiddenAt a ps"
  by (induction ps) (auto simp: hiddenAt_def)

lemma hiddenAt_distinct:
  "distinct (map id' ps) \<Longrightarrow> hiddenAt a ps \<longleftrightarrow> (\<exists>p \<in> set ps. id' p = a \<and> hidden p)"
  by (induction ps) (auto simp: hiddenAt_def image_iff)

lemma visible_Nil_iff: "visible ps = [] \<longleftrightarrow> (\<forall>p \<in> set ps. hidden p)"
  by (auto simp: visible_def filter_empty_conv)

lemma active_kept:
  assumes "reconcileActive s = None"
    and "activeTab s1 = activeTab s"
    and "allTabs s = [] \<Longrightarrow> allTabs s1 = []"
    and "hiddenAt (activeTab s) (platforms s1) = hiddenAt (activeTab s) (platforms s)"
  shows "reconcileActive s1 = None"
  using assms by (auto simp: reconcileActive_None_iff)

lemma remove_other:
  assumes "reconcileActive s = None" "i \<noteq> activeTab s"
  shows "activeTab (fst (step rt (RemovePlatform i) s)) = activeTab s"
proof -
  let ?s1 = "result (handleRemovePlatform i s)"
  have f: "activeTab ?s1 = activeTab s" "tempTabs ?s1 = tempTabs s"
    "platforms ?s1 = filter (\<lambda>p. id' p \<noteq> i) (platforms s)"
    using assms(2) by (simp_all add: handleRemovePlatform_def Let_def)
  have "reconcileActive ?s1 = None"
  proof (rule active_kept [OF assms(1) f(1)])
    show "allTabs ?s1 = []" if "allTabs s = []"
      using that by (auto simp: allTabs_def f visible_Nil_iff)
    show "hiddenAt (activeTab s) (platforms ?s1) = hiddenAt (activeTab s) (platforms s)"
      using assms(2) by (simp add: f hiddenAt_filter_other)
  qed
  then show ?thesis by (simp add: step_def commit_activeTab f)
qed

lemma close_other:
  assumes "reconcileActive s = None" "i \<noteq> activeTab s"
  shows "activeTab (fst (step rt (CloseTab i) s)) = activeTab s"
proof -
  let ?s1 = "result (handleCloseTab i s)"
  have a: "activeTab ?s1 = activeTab s"
    using assms(2) by (simp add: handleCloseTab_def Let_def)
  have "reconcileActive ?s1 = None"
  proof (cases "list_ex (\<lambda>p. id' p = i) (tempTabs s)")
    case True
    then have f: "platforms ?s1 = platforms s"
      "tempTabs ?s1 = filter (\<lambda>p. id' p \<noteq> i) (tempTabs s)"
      by (simp_all add: handleCloseTab_def Let_def)
    show ?thesis
    proof (rule active_kept [OF assms(1) a])
      show "allTabs ?s1 = []" if "allTabs s = []"
        using that by (simp add: allTabs_def f)
      show "hiddenAt (activeTab s) (platforms ?s1) = hiddenAt (activeTab s) (platforms s)"
        by (simp add: f)
    qed
  next
    case False
    then have f: "tempTabs ?s1 = tempTabs s"
      "platforms ?s1 = map (\<lambda>p. if id' p = i then p\<lparr> hidden := True \<rparr> else p) (platforms s)"
      by (simp_all add: handleCloseTab_def Let_def)
    show ?thesis
    proof (rule active_kept [OF assms(1) a])
      show "allTabs ?s1 = []" if "allTabs s = []"
        using that by (auto simp: allTabs_def f visible_Nil_iff)
      show "hiddenAt (activeTab s) (platforms ?s1) = hiddenAt (activeTab s) (platforms s)"
        using assms(2) by (simp add: f hiddenAt_hide_other)
    qed
  qed
  then show ?thesis by (simp add: step_def commit_activeTab a)
qed

lemma move_keeps_active:
  assumes "reconcileActive s = None" "distinct (map id' (platforms s))"
  shows "activeTab (fst (step rt (MovePlatform index dir) s)) = activeTab s"
proof (cases "index < length (platforms s)")
  case False
  then show ?thesis by (simp add: step_def movePlatform_def commit_activeTab unchanged_def)
next
  case True
  let ?s1 = "result (movePlatform index dir s)"
  obtain ps where ps: "those (handleMovePlatform index dir (platforms s)) = Some ps"
    "mset ps = mset (platforms s)"
    using handleMovePlatform_dense [OF True, of dir] by blast
  have f: "activeTab ?s1 = activeTab s" "tempTabs ?s1 = tempTabs s" "platforms ?s1 = ps"
    using True ps(1) by (simp_all add: movePlatform_def)
  have set: "set ps = set (platforms s)" using ps(2) by (rule mset_eq_setD)
  have "mset (map id' ps) = mset (map id' (platforms s))" using ps(2) by simp
  then have d: "distinct (map id' ps)"
    using assms(2) by (metis mset_eq_imp_distinct_iff)
  have "reconcileActive ?s1 = None"
  proof (rule active_kept [OF assms(1) f(1)])
    show "allTabs ?s1 = []" if "allTabs s = []"
      using that by (simp add: allTabs_def f visible_Nil_iff set)
    show "hiddenAt (activeTab s) (platforms ?s1) = hiddenAt (activeTab s) (platforms s)"
      by (simp add: f hiddenAt_distinct d assms(2) set)
  qed
  then show ?thesis by (simp add: step_def commit_activeTab f)
qed

lemma remove_in_overlay_shows_nothing:
  assumes "showSettings s"
  shows "filter isAnyShow (snd (step rt (RemovePlatform i) s)) = []"
proof -
  let ?out = "handleRemovePlatform i s"
  have o: "showSettings (result ?out)" "issued ?out = [DestroyWebview i]"
    using assms by (simp_all add: handleRemovePlatform_def Let_def)
  obtain w1 w2 where c: "snd (commit s ?out) =
      issued ?out @ (if platformsSet ?out \<or> initialized (result ?out) \<noteq> initialized s
                     then saveEffect (result ?out) else []) @ w1 @ w2"
    and w1: "w1 \<in> {[], webviewEffect (result ?out)}"
    and w2: "w2 = [] \<or> (\<exists>a. w2 = webviewEffect (result ?out\<lparr>activeTab := a\<rparr>))"
    using commit_calls [of s ?out] by blast
  have "w1 = []" using w1 o(1) by (auto simp: webviewEffect_def)
  moreover have "w2 = []" using w2 o(1) by (auto simp: webviewEffect_def)
  ultimately show ?thesis
    using c by (simp add: step_def o saveEffect_def savePlatformsToFile_def isAnyShow_def)
qed

text \<open>
  Claim C9, as amended. While the settings overlay is open and the component is at
  rest, removing or hiding a tab other than the active one leaves the active id
  unchanged, and so does moving a platform when the platform ids are distinct.
  Removing the active platform reassigns the active id also while the overlay is
  open: to the first tab of the remaining strip, when the strip is not empty. What
  the open overlay holds back is the bridge call: the removal shows no webview.
\<close>

theorem overlay_keeps_active_unless_removed:
  assumes "showSettings s" and "reconcileActive s = None"
  shows "(i \<noteq> activeTab s \<longrightarrow>
            activeTab (fst (step rt (RemovePlatform i) s)) = activeTab s
          \<and> activeTab (fst (step rt (CloseTab i) s)) = activeTab s)
       \<and> (distinct (map id' (platforms s)) \<longrightarrow>
            activeTab (fst (step rt (MovePlatform index dir) s)) = activeTab s)
       \<and> (allTabs (fst (step rt (RemovePlatform (activeTab s)) s)) \<noteq> [] \<longrightarrow>
            activeTab (fst (step rt (RemovePlatform (activeTab s)) s))
              = id' (hd (allTabs (fst (step rt (RemovePlatform (activeTab s)) s)))))
       \<and> filter isAnyShow (snd (step rt (RemovePlatform i) s)) = []"
  using remove_other [OF assms(2), of i rt] close_other [OF assms(2), of i rt]
        move_keeps_active [OF assms(2), of rt index dir]
        remove_active(3) [of s "activeTab s" rt]
        remove_in_overlay_shows_nothing [OF assms(1), of rt i]
  by blast

lemma overlayAB_settled: "reconcileActive overlayAB = None"
  by (simp add: reconcileActive_def overlayAB_def stateAB_def init_def visible_def tabA_def tabB_def js_def)

theorem overlay_witness:
  "showSettings overlayAB \<and> reconcileActive overlayAB = None
   \<and> js ''b'' \<noteq> activeTab overlayAB
   \<and> activeTab (fst (step example_runtime (RemovePlatform (js ''b'')) overlayAB)) = js ''a''
   \<and> distinct (map id' (platforms overlayAB))
   \<and> activeTab (fst (step example_runtime (MovePlatform 0 Down) overlayAB)) = js ''a''
   \<and> allTabs (fst (step example_runtime (RemovePlatform (activeTab overlayAB)) overlayAB)) \<noteq> []
   \<and> activeTab (fst (step example_runtime (RemovePlatform (activeTab overlayAB)) overlayAB)) = js ''b''"
proof -
  have h1: "showSettings overlayAB" by (simp add: overlayAB_def)
  have a: "activeTab overlayAB = js ''a''" by (simp add: overlayAB_def stateAB_def)
  have h2: "js ''b'' \<noteq> activeTab overlayAB" by (simp add: a) (simp add: js_def)
  have h3: "distinct (map id' (platforms overlayAB))"
    by (simp add: overlayAB_def stateAB_def tabA_def tabB_def js_def)
  have r: "allTabs (fst (step example_runtime (RemovePlatform (activeTab overlayAB)) overlayAB)) = [tabB]"
    by code_simp
  have b: "id' tabB = js ''b''" by (simp add: tabB_def)
  show ?thesis
    using overlay_keeps_active_unless_removed [OF h1 overlayAB_settled, of "js ''b''" example_runtime 0 Down]
          h1 h2 h3 overlayAB_settled
    by (simp add: r b) (simp add: a)
qed

text \<open>
  The claim as stated fails: with the overlay open, removing the active platform
  \<open>a\<close> from the settings panel makes \<open>b\<close> the active tab.
\<close>

theorem overlay_removal_reassigns_counterexample:
  "showSettings overlayAB \<and> activeTab overlayAB = js ''a''
   \<and> activeTab (fst (step example_runtime (RemovePlatform (js ''a'')) overlayAB)) = js ''b''
   \<and> js ''b'' \<noteq> js ''a''"
  by (simp add: step_def commit_def Let_def handleRemovePlatform_def reconcileActive_def
        visible_def overlayAB_def stateAB_def init_def tabA_def tabB_def js_def)

lemma hiddenAt_hd: "ps \<noteq> [] \<Longrightarrow> hiddenAt (id' (hd ps)) ps = hidden (hd ps)"
  by (cases ps) (auto simp: hiddenAt_def)

lemma set_allTabs: "set (allTabs s) = {p \<in> set (platforms s). \<not> hidden p} \<union> set (tempTabs s)"
  by (auto simp: allTabs_def visible_def)

text \<open>
  What a handler has to leave behind for the active id to name a tab of the strip
  after the render: either it does so already, or the effect will pick the first tab.
\<close>

lemma commit_activeInStrip:
  assumes "activeInStrip (result out)
           \<or> ((platformsSet out \<or> tempTabsSet out \<or> activeTab (result out) \<noteq> activeTab s0)
               \<and> (activeTab (result out) = []
                    \<or> hiddenAt (activeTab (result out)) (platforms (result out))))"
  shows "activeInStrip (fst (commit s0 out))"
proof (cases "allTabs (result out) = []")
  case True
  then show ?thesis by (simp add: activeInStrip_def allTabs_commit)
next
  case False
  let ?s1 = "result out"
  let ?D = "platformsSet out \<or> tempTabsSet out \<or> activeTab ?s1 \<noteq> activeTab s0"
  show ?thesis
  proof (cases "?D \<and> reconcileActive ?s1 \<noteq> None")
    case True
    then obtain a where a: "reconcileActive ?s1 = Some a" by auto
    then have "a = id' (hd (allTabs ?s1))" using reconcileActive_Some by blast
    moreover have "activeTab (fst (commit s0 out)) = a"
      using True a by (simp add: commit_activeTab)
    ultimately show ?thesis using False by (simp add: activeInStrip_def allTabs_commit)
  next
    case F: False
    have act: "activeTab (fst (commit s0 out)) = activeTab ?s1"
      using F by (auto simp: commit_activeTab)
    have "activeInStrip ?s1"
    proof (rule ccontr)
      assume n: "\<not> activeInStrip ?s1"
      then have "?D" and "activeTab ?s1 = [] \<or> hiddenAt (activeTab ?s1) (platforms ?s1)"
        using assms by auto
      then have "reconcileActive ?s1 \<noteq> None"
        using False by (auto simp: reconcileActive_None_iff)
      then show False using F \<open>?D\<close> by simp
    qed
    then show ?thesis using act by (simp add: activeInStrip_def allTabs_commit)
  qed
qed

lemma activeInStrip_same:
  "activeInStrip s \<Longrightarrow> platforms s1 = platforms s \<Longrightarrow> tempTabs s1 = tempTabs s \<Longrightarrow>
   activeTab s1 = activeTab s \<Longrightarrow> activeInStrip s1"
  by (simp add: activeInStrip_def allTabs_def)

lemma activeInStrip_sub:
  assumes "activeInStrip s" "activeTab s1 = activeTab s"
    and "allTabs s = [] \<Longrightarrow> allTabs s1 = []"
    and "\<And>p. p \<in> set (allTabs s) \<Longrightarrow> id' p = activeTab s \<Longrightarrow> \<exists>q \<in> set (allTabs s1). id' q = id' p"
  shows "activeInStrip s1"
  using assms by (fastforce simp: activeInStrip_def image_iff)

lemma removePlatform_activeInStrip:
  assumes "activeInStrip s"
  shows "activeInStrip (fst (step rt (RemovePlatform i) s))"
proof -
  let ?out = "handleRemovePlatform i s"
  let ?s1 = "result ?out"
  let ?upd = "filter (\<lambda>p. id' p \<noteq> i) (platforms s)"
  have f: "platformsSet ?out" "platforms ?s1 = ?upd" "tempTabs ?s1 = tempTabs s"
    by (simp_all add: handleRemovePlatform_def Let_def)
  show ?thesis unfolding step_def handle.simps
  proof (rule commit_activeInStrip, cases "activeTab s = i")
    case True
    then have a: "activeTab ?s1 = (if ?upd \<noteq> [] then id' (hd ?upd) else [])"
      by (simp add: handleRemovePlatform_def Let_def)
    show "activeInStrip ?s1 \<or>
        ((platformsSet ?out \<or> tempTabsSet ?out \<or> activeTab ?s1 \<noteq> activeTab s)
         \<and> (activeTab ?s1 = [] \<or> hiddenAt (activeTab ?s1) (platforms ?s1)))"
    proof (cases "?upd \<noteq> [] \<and> \<not> hidden (hd ?upd)")
      case True
      then have "hd ?upd \<in> set (allTabs ?s1)"
        by (simp add: set_allTabs f del: set_filter hd_in_set) (metis hd_in_set)
      then show ?thesis using True by (auto simp: activeInStrip_def a image_iff)
    next
      case False
      then show ?thesis using f(1) hiddenAt_hd [of ?upd] by (auto simp: a f)
    qed
  next
    case False
    then have a: "activeTab ?s1 = activeTab s" by (simp add: handleRemovePlatform_def Let_def)
    have "activeInStrip ?s1"
    proof (rule activeInStrip_sub [OF assms a])
      show "allTabs ?s1 = []" if "allTabs s = []"
        using that by (auto simp: allTabs_def f visible_Nil_iff)
      show "\<exists>q \<in> set (allTabs ?s1). id' q = id' p"
        if "p \<in> set (allTabs s)" "id' p = activeTab s" for p
        using that False by (auto simp: set_allTabs f)
    qed
    then show "activeInStrip ?s1 \<or>
        ((platformsSet ?out \<or> tempTabsSet ?out \<or> activeTab ?s1 \<noteq> activeTab s)
         \<and> (activeTab ?s1 = [] \<or> hiddenAt (activeTab ?s1) (platforms ?s1)))" by simp
  qed
qed

lemma activeInStrip_member:
  "t \<in> set (allTabs s1) \<Longrightarrow> activeTab s1 = id' t \<Longrightarrow> activeInStrip s1"
  by (auto simp: activeInStrip_def)

lemma commit_keeps: "activeInStrip (result out) \<Longrightarrow> activeInStrip (fst (commit s0 out))"
  by (rule commit_activeInStrip) simp

lemma firstId_hd: "xs \<noteq> [] \<Longrightarrow> firstId xs = id' (hd xs)"
  by (cases xs) (auto simp: firstId_def)

text \<open>
  Closing the active temporary tab and cancelling a blank one compute the next active
  id in the same way, from all platforms followed by the remaining temporary tabs.
\<close>

lemma fallback_unfiltered:
  assumes "platforms s1 = ps" "tempTabs s1 = ts" "activeTab s1 = firstId (ps @ ts)"
  shows "activeInStrip s1 \<or> activeTab s1 = [] \<or> hiddenAt (activeTab s1) (platforms s1)"
proof (cases ps)
  case Nil
  show ?thesis
  proof (cases ts)
    case Nil
    then show ?thesis using \<open>ps = []\<close> assms by (simp add: firstId_def)
  next
    case (Cons t ts')
    then have "t \<in> set (allTabs s1)" using assms by (simp add: set_allTabs)
    then show ?thesis using Cons \<open>ps = []\<close> assms
      by (auto simp: firstId_def intro: activeInStrip_member)
  qed
next
  case (Cons p ps')
  show ?thesis
  proof (cases "hidden p")
    case True
    then show ?thesis using Cons assms by (simp add: firstId_def hiddenAt_def)
  next
    case False
    then have "p \<in> set (allTabs s1)" using Cons assms by (simp add: set_allTabs)
    then show ?thesis using Cons assms by (auto simp: firstId_def intro: activeInStrip_member)
  qed
qed

lemma closeTab_activeInStrip:
  assumes "activeInStrip s"
  shows "activeInStrip (fst (step rt (CloseTab i) s))"
proof -
  let ?out = "handleCloseTab i s"
  let ?s1 = "result ?out"
  have D: "platformsSet ?out \<or> tempTabsSet ?out" by (simp add: handleCloseTab_def Let_def)
  have "activeInStrip ?s1 \<or> activeTab ?s1 = [] \<or> hiddenAt (activeTab ?s1) (platforms ?s1)"
  proof (cases "list_ex (\<lambda>p. id' p = i) (tempTabs s)")
    case True
    let ?after = "filter (\<lambda>p. id' p \<noteq> i) (tempTabs s)"
    have f: "platforms ?s1 = platforms s" "tempTabs ?s1 = ?after"
      using True by (simp_all add: handleCloseTab_def Let_def)
    show ?thesis
    proof (cases "activeTab s = i")
      case a: True
      then have "activeTab ?s1 = firstId (platforms s @ ?after)"
        using True by (simp add: handleCloseTab_def Let_def)
      then show ?thesis using fallback_unfiltered [OF f] by simp
    next
      case a: False
      then have a1: "activeTab ?s1 = activeTab s"
        using True by (simp add: handleCloseTab_def Let_def)
      have "activeInStrip ?s1"
      proof (rule activeInStrip_sub [OF assms a1])
        show "allTabs ?s1 = []" if "allTabs s = []"
          using that by (simp add: allTabs_def f)
        show "\<exists>q \<in> set (allTabs ?s1). id' q = id' p"
          if "p \<in> set (allTabs s)" "id' p = activeTab s" for p
          using that a by (auto simp: set_allTabs f)
      qed
      then show ?thesis by simp
    qed
  next
    case False
    let ?upd = "map (\<lambda>p. if id' p = i then p\<lparr> hidden := True \<rparr> else p) (platforms s)"
    have f: "platforms ?s1 = ?upd" "tempTabs ?s1 = tempTabs s"
      using False by (simp_all add: handleCloseTab_def Let_def)
    show ?thesis
    proof (cases "activeTab s = i")
      case a: True
      then have a1: "activeTab ?s1 = firstId (allTabs ?s1)"
        using False by (simp add: handleCloseTab_def Let_def allTabs_def)
      have "activeInStrip ?s1"
      proof (cases "allTabs ?s1 = []")
        case True
        then show ?thesis by (simp add: activeInStrip_def)
      next
        case ne: False
        then have "hd (allTabs ?s1) \<in> set (allTabs ?s1)" by simp
        moreover have "activeTab ?s1 = id' (hd (allTabs ?s1))" using ne a1 by (simp add: firstId_hd)
        ultimately show ?thesis by (rule activeInStrip_member)
      qed
      then show ?thesis by simp
    next
      case a: False
      then have a1: "activeTab ?s1 = activeTab s"
        using False by (simp add: handleCloseTab_def Let_def)
      have "activeInStrip ?s1"
      proof (rule activeInStrip_sub [OF assms a1])
        show "allTabs ?s1 = []" if "allTabs s = []"
          using that by (auto simp: allTabs_def f visible_Nil_iff)
        show "\<exists>q \<in> set (allTabs ?s1). id' q = id' p"
          if "p \<in> set (allTabs s)" "id' p = activeTab s" for p
          using that a by (auto simp: set_allTabs f image_iff)
      qed
      then show ?thesis by simp
    qed
  qed
  then show ?thesis unfolding step_def handle.simps
    using D by (intro commit_activeInStrip) auto
qed

lemma quickAddCancel_activeInStrip:
  assumes "activeInStrip s"
  shows "activeInStrip (fst (step rt QuickAddCancel s))"
proof -
  let ?out = "quickAddCancel s"
  let ?s1 = "result ?out"
  let ?after = "filter (\<lambda>p. id' p \<noteq> activeTab s) (tempTabs s)"
  have "(tempTabsSet ?out \<and> platforms ?s1 = platforms s \<and> tempTabs ?s1 = ?after
          \<and> activeTab ?s1 = firstId (platforms s @ ?after))
        \<or> (platforms ?s1 = platforms s \<and> tempTabs ?s1 = tempTabs s \<and> activeTab ?s1 = activeTab s)"
  proof (cases "find (\<lambda>p. id' p = activeTab s) (tempTabs s)")
    case None
    then show ?thesis by (simp add: quickAddCancel_def Let_def unchanged_def resetQuickAdd_def)
  next
    case (Some t)
    then show ?thesis
      by (cases "blank (url t)")
         (simp_all add: quickAddCancel_def Let_def unchanged_def resetQuickAdd_def)
  qed
  then consider (removed) "tempTabsSet ?out" "platforms ?s1 = platforms s" "tempTabs ?s1 = ?after"
      "activeTab ?s1 = firstId (platforms s @ ?after)"
    | (kept) "platforms ?s1 = platforms s" "tempTabs ?s1 = tempTabs s" "activeTab ?s1 = activeTab s"
    by blast
  then show ?thesis unfolding step_def handle.simps
  proof cases
    case removed
    then show "activeInStrip (fst (commit s ?out))"
      using fallback_unfiltered [OF removed(2,3,4)] by (intro commit_activeInStrip) auto
  next
    case kept
    then show "activeInStrip (fst (commit s ?out))"
      using activeInStrip_same [OF assms kept] by (intro commit_keeps)
  qed
qed

lemma appended_temp:
  "tempTabs s1 = ts @ [t] \<Longrightarrow> activeTab s1 = id' t \<Longrightarrow> activeInStrip s1"
  by (rule activeInStrip_member [of t]) (simp_all add: set_allTabs)

lemma handleQuickAdd_activeInStrip:
  "activeInStrip s \<Longrightarrow> activeInStrip (result (handleQuickAdd rt now s))"
  by (cases "trim (quickUrl s) = []")
     (auto simp: handleQuickAdd_def Let_def unchanged_def resetQuickAdd_def intro: appended_temp)

lemma renamed_temp:
  assumes "activeInStrip s" "platforms s1 = platforms s" "activeTab s1 = activeTab s"
    and "tempTabs s1 = map (\<lambda>p. if id' p = j then p\<lparr> name := n, url := u \<rparr> else p) (tempTabs s)"
  shows "activeInStrip s1"
proof (rule activeInStrip_sub [OF assms(1,3)])
  let ?f = "\<lambda>p. if id' p = j then p\<lparr> name := n, url := u \<rparr> else p"
  show "allTabs s1 = []" if "allTabs s = []"
    using that by (simp add: allTabs_def assms)
  show "\<exists>q \<in> set (allTabs s1). id' q = id' p"
    if "p \<in> set (allTabs s)" "id' p = activeTab s" for p
  proof (cases "p \<in> set (tempTabs s)")
    case True
    then have "?f p \<in> set (allTabs s1)" by (simp add: set_allTabs assms)
    moreover have "id' (?f p) = id' p" by simp
    ultimately show ?thesis by blast
  next
    case False
    then have "p \<in> set (allTabs s1)" using that(1) by (auto simp: set_allTabs assms)
    then show ?thesis by blast
  qed
qed

lemma quickAddConfirm_activeInStrip:
  assumes "activeInStrip s"
  shows "activeInStrip (result (quickAddConfirm rt now s))"
proof (cases "find (\<lambda>p. id' p = activeTab s) (tempTabs s)")
  case None
  then show ?thesis using assms by (simp add: quickAddConfirm_def handleQuickAdd_activeInStrip)
next
  case (Some t)
  show ?thesis
  proof (cases "blank (url t) \<and> normalizeUrl (quickUrl s) \<noteq> []")
    case True
    let ?n = "if trim (quickName s) \<noteq> [] then trim (quickName s)
              else deriveNameFromUrl rt (normalizeUrl (quickUrl s))"
    have "activeInStrip (result (quickAddConfirm rt now s))"
    proof (rule renamed_temp [OF assms, where j = "id' t" and n = ?n
                                 and u = "normalizeUrl (quickUrl s)"])
      show "platforms (result (quickAddConfirm rt now s)) = platforms s"
        "activeTab (result (quickAddConfirm rt now s)) = activeTab s"
        "tempTabs (result (quickAddConfirm rt now s)) =
           map (\<lambda>p. if id' p = id' t then p\<lparr> name := ?n, url := normalizeUrl (quickUrl s) \<rparr> else p)
               (tempTabs s)"
        using Some True by (simp_all add: quickAddConfirm_def Let_def resetQuickAdd_def)
    qed
    then show ?thesis .
  next
    case False
    then show ?thesis using Some assms
      by (auto simp: quickAddConfirm_def Let_def unchanged_def handleQuickAdd_activeInStrip)
  qed
qed

lemma movePlatform_activeInStrip:
  assumes "activeInStrip s"
  shows "activeInStrip (result (movePlatform index dir s))"
proof (cases "index < length (platforms s)")
  case False
  then show ?thesis using assms by (simp add: movePlatform_def unchanged_def)
next
  case True
  let ?s1 = "result (movePlatform index dir s)"
  obtain ps where ps: "those (handleMovePlatform index dir (platforms s)) = Some ps"
    "mset ps = mset (platforms s)"
    using handleMovePlatform_dense [OF True, of dir] by blast
  have f: "activeTab ?s1 = activeTab s" "tempTabs ?s1 = tempTabs s" "platforms ?s1 = ps"
    using True ps(1) by (simp_all add: movePlatform_def)
  have set: "set ps = set (platforms s)" using ps(2) by (rule mset_eq_setD)
  show ?thesis
  proof (rule activeInStrip_sub [OF assms f(1)])
    show "allTabs ?s1 = []" if "allTabs s = []"
      using that by (simp add: allTabs_def f visible_Nil_iff set)
    show "\<exists>q \<in> set (allTabs ?s1). id' q = id' p"
      if "p \<in> set (allTabs s)" "id' p = activeTab s" for p
      using that by (auto simp: set_allTabs f set)
  qed
qed

lemma panelItemClick_activeInStrip:
  assumes "activeInStrip s"
  shows "activeInStrip (result (panelItemClick index s))"
proof (cases "index < length (platforms s) \<and> hidden (platforms s ! index)")
  case False
  then show ?thesis using assms by (auto simp: panelItemClick_def unchanged_def)
next
  case True
  let ?p = "platforms s ! index"
  let ?s1 = "result (panelItemClick index s)"
  have f: "activeTab ?s1 = id' ?p"
    "platforms ?s1 = map (\<lambda>item. if id' item = id' ?p then item\<lparr> hidden := False \<rparr> else item)
                         (platforms s)"
    using True by (simp_all add: panelItemClick_def Let_def)
  have "?p \<in> set (platforms s)" using True by simp
  then have "?p\<lparr> hidden := False \<rparr> \<in> set (allTabs ?s1)"
    by (auto simp: set_allTabs f image_iff intro!: bexI [of _ ?p])
  then show ?thesis by (rule activeInStrip_member) (simp add: f)
qed

lemma selectTab_activeInStrip:
  assumes "activeInStrip s"
  shows "activeInStrip (result (selectTab i s))"
proof (cases "list_ex (\<lambda>p. id' p = i) (visible (platforms s) @ tempTabs s)")
  case True
  then obtain t where "t \<in> set (allTabs s)" "id' t = i"
    by (auto simp: list_ex_iff allTabs_def)
  then have "t \<in> set (allTabs (s\<lparr> activeTab := i \<rparr>))" by (simp add: allTabs_def)
  then have "activeInStrip (s\<lparr> activeTab := i \<rparr>)"
    by (rule activeInStrip_member) (simp add: \<open>id' t = i\<close>)
  then show ?thesis using True by (simp add: selectTab_def unchanged_def)
next
  case False
  then show ?thesis using assms by (simp add: selectTab_def unchanged_def)
qed

lemma handleAddPlatform_activeInStrip:
  assumes "activeInStrip s"
  shows "activeInStrip (result (handleAddPlatform rt now s))"
proof (cases "trim (newName s) = [] \<or> trim (newUrl s) = []")
  case True
  then show ?thesis using assms by (auto simp: handleAddPlatform_def unchanged_def)
next
  case False
  let ?i = "replace_ws (toLowerCase rt (newName s)) @ js ''-'' @ string_of_nat now"
  let ?p = "\<lparr> id' = ?i, name = trim (newName s), url = normalizeUrl (newUrl s), hidden = False \<rparr>"
  let ?s1 = "result (handleAddPlatform rt now s)"
  have f: "platforms ?s1 = platforms s @ [?p]" "activeTab ?s1 = ?i"
    using False by (simp_all add: handleAddPlatform_def Let_def resetAddForm_def)
  have "?p \<in> set (allTabs ?s1)" by (simp add: set_allTabs f)
  then show ?thesis by (rule activeInStrip_member) (simp add: f)
qed

lemma openBlank_activeInStrip:
  assumes "activeInStrip s"
  shows "activeInStrip (result (openBlank now s))"
proof (cases "\<not> showSettings s \<and> \<not> showQuickAdd s")
  case True
  then show ?thesis by (auto simp: openBlank_def Let_def intro: appended_temp)
next
  case False
  then have "activeInStrip (result (openBlank now s)) = activeInStrip (s\<lparr> showQuickAdd := True \<rparr>)
             \<or> result (openBlank now s) = s"
    by (auto simp: openBlank_def unchanged_def)
  moreover have "activeInStrip (s\<lparr> showQuickAdd := True \<rparr>)"
    using assms by (rule activeInStrip_same) simp_all
  ultimately show ?thesis using assms by auto
qed

lemma newTabRequest_activeInStrip:
  "activeInStrip s \<Longrightarrow> activeInStrip (result (newTabRequest rt v now s))"
  by (cases "v = []") (auto simp: newTabRequest_def Let_def unchanged_def intro: appended_temp)

lemma toggleSettings_activeInStrip:
  assumes "activeInStrip s"
  shows "activeInStrip (result (toggleSettings s))"
  using assms
  by (cases "showSettings s")
     (auto simp: toggleSettings_def resetAddForm_def elim!: activeInStrip_same)

text \<open>
  The half of the invariant that the code keeps: when the active id names a tab of the
  strip (or the strip is empty), it still does so after every event but the
  resolution of the load.
\<close>

lemma step_activeInStrip:
  assumes "activeInStrip s" "\<not> isLoadResolved e"
  shows "activeInStrip (fst (step rt e s))"
proof (cases e)
  case (LoadResolved p l)
  then show ?thesis using assms(2) by (simp add: isLoadResolved_def)
next
  case (RemovePlatform i)
  then show ?thesis using removePlatform_activeInStrip [OF assms(1)] by simp
next
  case (CloseTab i)
  then show ?thesis using closeTab_activeInStrip [OF assms(1)] by simp
next
  case QuickAddCancel
  then show ?thesis using quickAddCancel_activeInStrip [OF assms(1)] by simp
next
  case (MovePlatform index dir)
  then show ?thesis unfolding step_def
    using movePlatform_activeInStrip [OF assms(1)] by (simp add: commit_keeps)
next
  case (PanelItemClick index)
  then show ?thesis unfolding step_def
    using panelItemClick_activeInStrip [OF assms(1)] by (simp add: commit_keeps)
next
  case (QuickAddConfirm now)
  then show ?thesis unfolding step_def
    using quickAddConfirm_activeInStrip [OF assms(1)] assms(1)
    by (auto simp: unchanged_def intro: commit_keeps)
next
  case (SelectTab i)
  then show ?thesis using selectTab_activeInStrip [OF assms(1)] by (simp add: step_def commit_keeps)
next
  case ToggleSettings
  then show ?thesis using toggleSettings_activeInStrip [OF assms(1)] by (simp add: step_def commit_keeps)
next
  case (AddPlatform now)
  then show ?thesis using handleAddPlatform_activeInStrip [OF assms(1)] by (simp add: step_def commit_keeps)
next
  case (OpenBlank now)
  then show ?thesis using openBlank_activeInStrip [OF assms(1)] by (simp add: step_def commit_keeps)
next
  case (NewTabRequest v now)
  then show ?thesis using newTabRequest_activeInStrip [OF assms(1)] by (simp add: step_def commit_keeps)
next
  case (ReloadPlatform i)
  then show ?thesis using assms(1)
    by (simp add: step_def commit_keeps handleReloadPlatform_def unchanged_def)
next
  case (SetShowAddForm b)
  have "activeInStrip (s\<lparr> showAddForm := True \<rparr>)"
    "activeInStrip (resetAddForm (s\<lparr> showAddForm := False \<rparr>))"
    using assms(1) by (auto simp: resetAddForm_def elim!: activeInStrip_same)
  then show ?thesis using SetShowAddForm by (simp add: step_def commit_keeps unchanged_def)
next
  case (TypeNewName v)
  have "activeInStrip (s\<lparr> newName := v \<rparr>)" using assms(1) by (rule activeInStrip_same) simp_all
  then show ?thesis using TypeNewName by (simp add: step_def commit_keeps unchanged_def)
next
  case (TypeNewUrl v)
  have "activeInStrip (s\<lparr> newUrl := v \<rparr>)" using assms(1) by (rule activeInStrip_same) simp_all
  then show ?thesis using TypeNewUrl by (simp add: step_def commit_keeps unchanged_def)
next
  case (TypeQuickName v)
  have "activeInStrip (s\<lparr> quickName := v \<rparr>)" using assms(1) by (rule activeInStrip_same) simp_all
  then show ?thesis using TypeQuickName by (simp add: step_def commit_keeps unchanged_def)
next
  case (TypeQuickUrl v)
  have "activeInStrip (s\<lparr> quickUrl := v \<rparr>)" using assms(1) by (rule activeInStrip_same) simp_all
  then show ?thesis using TypeQuickUrl by (simp add: step_def commit_keeps unchanged_def)
qed

text \<open>
  Claim C2 at the input where the code departs from it. The platforms are \<open>a\<close>
  (visible, active) and \<open>c\<close> (hidden), and there is no temporary tab. Removing
  \<open>a\<close> deletes that record, leaves no visible tab, and yet makes the hidden \<open>c\<close> the
  active tab instead of the empty string; the webview of \<open>c\<close> is shown.
\<close>

theorem remove_active_selects_hidden_tab:
  "activeTab stateAC = js ''a''
   \<and> platforms (fst (step example_runtime (RemovePlatform (js ''a'')) stateAC)) = [tabC]
   \<and> hidden tabC
   \<and> allTabs (fst (step example_runtime (RemovePlatform (js ''a'')) stateAC)) = []
   \<and> activeTab (fst (step example_runtime (RemovePlatform (js ''a'')) stateAC)) = js ''c''
   \<and> js ''c'' \<noteq> []
   \<and> CreateOrShowWebview (js ''c'') (js ''https://c.example'') 70
        \<in> set (snd (step example_runtime (RemovePlatform (js ''a'')) stateAC))"
  by code_simp

text \<open>
  Claim C1 at inputs where the code departs from it. After closing the last
  temporary tab, or cancelling a blank one, while every persistent tab is hidden, the
  strip is empty but the active id is the id of a hidden persistent tab.
\<close>

theorem active_tab_invariant_broken:
  "(let s = fst (run example_runtime init
        [LoadResolved (Some (JArray [tabA, tabC])) None,
         NewTabRequest (js ''https://example.com/x'') 17,
         CloseTab (js ''a''), CloseTab (js ''tmp-17'')])
    in allTabs s = [] \<and> activeTab s = js ''a'' \<and> activeTab s \<noteq> [])
   \<and> (let s = fst (run example_runtime init
        [LoadResolved (Some (JArray [tabC])) None, OpenBlank 5, QuickAddCancel])
    in allTabs s = [] \<and> activeTab s = js ''c'' \<and> activeTab s \<noteq> [])"
  by code_simp

end
